theory Spec2Isabelle
  imports Complex_Main
begin

section \<open>Pricing utilities (backend/src/utils/pricing.js)\<close>

subsection \<open>Numbers\<close>

text \<open>
  A JavaScript number is an IEEE 754 binary64 value. A finite one is modelled by the real
  number it equals. \<open>binary64 x\<close> is the double nearest to the real \<open>x\<close>: a
  significand of 53 bits at the exponent of \<open>x\<close>, the subnormal grid of spacing
  \<open>2 powi - 1074\<close> below \<open>2 powi - 1022\<close>, a tie going to the even significand. The
  operators \<open>+\<close>, \<open>*\<close> and \<open>/\<close> return the double nearest to the exact result, and so
  does \<open>parseFloat\<close> of the text of a DECIMAL column. \<open>Math.round\<close> is exact: the
  nearest integer, a tie going up.

  Infinity and NaN are outside the model: a result of magnitude \<open>2 powi 1024\<close> or more,
  where the program overflows, is rounded on the grid of the last binade. Zero has no
  sign: \<open>calculatePrice\<close> divides by the literal 10 only.
\<close>

definition Math_round :: "real \<Rightarrow> real" where
  "Math_round x = of_int \<lfloor>x + 1 / 2\<rfloor>"

text \<open>The nearest integer, a tie going to the even one.\<close>

definition round_even :: "real \<Rightarrow> int" where
  "round_even x =
     (let f = \<lfloor>x\<rfloor>; r = x - of_int f
      in if r < 1 / 2 then f else if 1 / 2 < r then f + 1 else if even f then f else f + 1)"

text \<open>
  The exponent of a magnitude: the least \<open>e\<close> from \<open>- 1022\<close> on with
  \<open>a < 2 powi (e + 1)\<close>, and 1023 at most.
\<close>

fun expo_from :: "nat \<Rightarrow> int \<Rightarrow> real \<Rightarrow> int" where
  "expo_from 0 e a = e"
| "expo_from (Suc n) e a = (if a < 2 powi (e + 1) then e else expo_from n (e + 1) a)"

definition exponent :: "real \<Rightarrow> int" where
  "exponent x = expo_from 2045 (- 1022) \<bar>x\<bar>"

text \<open>The multiple of \<open>2 powi q\<close> nearest to \<open>x\<close>.\<close>

definition round_to :: "int \<Rightarrow> real \<Rightarrow> real" where
  "round_to q x = of_int (round_even (x / 2 powi q)) * 2 powi q"

definition binary64 :: "real \<Rightarrow> real" where
  "binary64 x = round_to (exponent x - 52) x"

definition js_add :: "real \<Rightarrow> real \<Rightarrow> real" where
  "js_add a b = binary64 (a + b)"

definition js_mul :: "real \<Rightarrow> real \<Rightarrow> real" where
  "js_mul a b = binary64 (a * b)"

definition js_div :: "real \<Rightarrow> real \<Rightarrow> real" where
  "js_div a b = binary64 (a / b)"

definition parseFloat :: "real \<Rightarrow> real" where
  "parseFloat x = binary64 x"

subsection \<open>The functions of pricing.js\<close>

text \<open>A \<open>Date\<close> as \<open>calculatePrice\<close> reads it: the local hour and the local weekday.\<close>

record js_date =
  getHours :: nat
  getDay :: nat

text \<open>A row of \<open>pricing_config\<close>.\<close>

record pricing_config =
  base_price :: real
  price_per_km :: real
  night_multiplier :: real
  weekend_multiplier :: real
  minimum_price :: real
  is_active :: bool
  created_at :: int

definition calculatePrice :: "real \<Rightarrow> js_date \<Rightarrow> pricing_config \<Rightarrow> real" where
  "calculatePrice distanceKm requestTime config =
     (let price = parseFloat (base_price config);
          price = js_add price (js_mul distanceKm (parseFloat (price_per_km config)));
          hour = getHours requestTime;
          price = (if hour \<ge> 22 \<or> hour < 6
                   then js_mul price (parseFloat (night_multiplier config)) else price);
          day = getDay requestTime;
          price = (if day = 0 \<or> day = 6
                   then js_mul price (parseFloat (weekend_multiplier config)) else price);
          price = max price (parseFloat (minimum_price config))
      in js_mul (Math_round (js_div price 10)) 10)"

text \<open>
  The distance and the durations are read in exact arithmetic: a sine or a cosine has no
  exact double, and no property below depends on the digits of a distance or of a
  duration.
\<close>

definition toRad :: "real \<Rightarrow> real" where
  "toRad degrees = degrees * (pi / 180)"

text \<open>\<open>Math.atan2 y x\<close>: the angle of the point \<open>(x, y)\<close>, in \<open>(-pi, pi]\<close>.\<close>

definition Math_atan2 :: "real \<Rightarrow> real \<Rightarrow> real" where
  "Math_atan2 y x =
     (if 0 < x then arctan (y / x)
      else if x < 0 then (if 0 \<le> y then arctan (y / x) + pi else arctan (y / x) - pi)
      else if 0 < y then pi / 2
      else if y < 0 then - (pi / 2)
      else 0)"

definition calculateDistance :: "real \<Rightarrow> real \<Rightarrow> real \<Rightarrow> real \<Rightarrow> real" where
  "calculateDistance lat1 lon1 lat2 lon2 =
     (let R = 6371;
          dLat = toRad (lat2 - lat1);
          dLon = toRad (lon2 - lon1);
          a = sin (dLat / 2) * sin (dLat / 2) +
              cos (toRad lat1) * cos (toRad lat2) * sin (dLon / 2) * sin (dLon / 2);
          c = 2 * Math_atan2 (sqrt a) (sqrt (1 - a));
          distance = R * c
      in Math_round (distance * 10) / 10)"

definition calculateEstimatedTime :: "real \<Rightarrow> real" where
  "calculateEstimatedTime distanceKm =
     (let averageSpeedKmh = 36; timeHours = distanceKm / averageSpeedKmh
      in Math_round (timeHours * 60))"

text \<open>The default row of \<open>pricing_config\<close> (the column defaults of the schema).\<close>

definition defaultConfig :: pricing_config where
  "defaultConfig =
     \<lparr>base_price = 300, price_per_km = 50, night_multiplier = 3 / 2,
      weekend_multiplier = 6 / 5, minimum_price = 400, is_active = True, created_at = 0\<rparr>"

subsection \<open>The fare as the specification words it\<close>

text \<open>
  A second definition, written from the specification's sentence and compared with
  \<open>calculatePrice\<close> below: the night window is \<open>[22,24) \<union> [0,6)\<close>, the weekend is
  Saturday and Sunday, the night multiplier is applied before the weekend one, the
  result is clamped below by the minimum fare, and the clamped price is replaced by the
  multiple of 10 nearest to it, a tie going to the larger one. \<open>estimate_spec\<close> reads the
  sums and products of the sentence as the program's, each rounded to a double;
  \<open>estimate_exact\<close> reads them in exact arithmetic.
\<close>

definition Sunday :: nat where "Sunday = 0"
definition Saturday :: nat where "Saturday = 6"

definition is_night :: "js_date \<Rightarrow> bool" where
  "is_night t = ((22 \<le> getHours t \<and> getHours t < 24) \<or> getHours t < 6)"

definition is_weekend :: "js_date \<Rightarrow> bool" where
  "is_weekend t = (getDay t = Saturday \<or> getDay t = Sunday)"

definition nearest_ten :: "real \<Rightarrow> real" where
  "nearest_ten p = 10 * of_int \<lfloor>p / 10 + 1 / 2\<rfloor>"

text \<open>The price before rounding to 10.\<close>

definition clamped_price :: "real \<Rightarrow> js_date \<Rightarrow> pricing_config \<Rightarrow> real" where
  "clamped_price distanceKm atTime config =
     (let p0 = js_add (parseFloat (base_price config))
                      (js_mul distanceKm (parseFloat (price_per_km config)));
          p1 = (if is_night atTime then js_mul p0 (parseFloat (night_multiplier config)) else p0);
          p2 = (if is_weekend atTime then js_mul p1 (parseFloat (weekend_multiplier config)) else p1)
      in max p2 (parseFloat (minimum_price config)))"

definition estimate_spec :: "real \<Rightarrow> js_date \<Rightarrow> pricing_config \<Rightarrow> real" where
  "estimate_spec distanceKm atTime config = nearest_ten (clamped_price distanceKm atTime config)"

definition estimate_exact :: "real \<Rightarrow> js_date \<Rightarrow> pricing_config \<Rightarrow> real" where
  "estimate_exact distanceKm atTime config =
     (let p0 = base_price config + distanceKm * price_per_km config;
          p1 = (if is_night atTime then p0 * night_multiplier config else p0);
          p2 = (if is_weekend atTime then p1 * weekend_multiplier config else p1)
      in nearest_ten (max p2 (minimum_price config)))"

definition valid_date :: "js_date \<Rightarrow> bool" where
  "valid_date t = (getHours t < 24 \<and> getDay t < 7)"

text \<open>The price before the minimum is applied, with the tests of the source.\<close>

definition fare_before_clamp :: "real \<Rightarrow> js_date \<Rightarrow> pricing_config \<Rightarrow> real" where
  "fare_before_clamp distanceKm requestTime config =
     js_mul
       (js_mul (js_add (parseFloat (base_price config))
                       (js_mul distanceKm (parseFloat (price_per_km config))))
               (if getHours requestTime \<ge> 22 \<or> getHours requestTime < 6
                then parseFloat (night_multiplier config) else 1))
       (if getDay requestTime = 0 \<or> getDay requestTime = 6
        then parseFloat (weekend_multiplier config) else 1)"

text \<open>Tuesday 20:00, Tuesday 23:00, Saturday 14:00 and Sunday 01:00.\<close>

definition tue_20 :: js_date where "tue_20 = \<lparr>getHours = 20, getDay = 2\<rparr>"
definition tue_23 :: js_date where "tue_23 = \<lparr>getHours = 23, getDay = 2\<rparr>"
definition sat_14 :: js_date where "sat_14 = \<lparr>getHours = 14, getDay = 6\<rparr>"
definition sun_01 :: js_date where "sun_01 = \<lparr>getHours = 1, getDay = 0\<rparr>"

text \<open>The double nearest to 0.6.\<close>

definition six_tenths :: real where
  "six_tenths = binary64 (3 / 5)"

section \<open>The record store\<close>

text \<open>
  Tables are lists of rows, as the schema declares them. A UUID is a natural number and
  \<open>gen_random_uuid()\<close> a counter of the store; a timestamp counts microseconds.
\<close>

type_synonym uuid = nat
type_synonym timestamp = int

text \<open>A \<open>GEOGRAPHY(POINT, 4326)\<close> value, \<open>ST_MakePoint(x, y)\<close>: x the longitude, y the latitude.\<close>

record geo_point =
  st_x :: real
  st_y :: real

datatype approval_status = approval_pending | approved | rejected

datatype user_status = active | suspended | deleted

datatype trip_status =
  pending | accepted | driver_arriving | in_progress | completed
  | cancelled_by_client | cancelled_by_driver

record user_row =
  u_id :: uuid
  full_name :: string
  phone_number :: string
  u_status :: user_status

record driver_profile =
  user_id :: uuid
  approval :: approval_status
  is_available :: bool
  current_location :: "geo_point option"
  last_location_update :: "timestamp option"
  rating_average :: real
  total_trips :: int
  profile_photo_url :: string

record trip =
  trip_id :: uuid
  client_id :: uuid
  driver_id :: "uuid option"
  pickup_location :: geo_point
  pickup_address :: string
  dropoff_location :: geo_point
  dropoff_address :: string
  estimated_distance_km :: real
  estimated_duration_min :: real
  estimated_price :: real
  status :: trip_status
  requested_at :: timestamp
  accepted_at :: "timestamp option"
  started_at :: "timestamp option"
  completed_at :: "timestamp option"
  cancelled_at :: "timestamp option"
  sos_triggered :: bool
  sos_triggered_at :: "timestamp option"
  updated_at :: timestamp

record trip_location =
  tl_trip_id :: uuid
  tl_location :: geo_point
  speed_kmh :: real
  heading :: real
  recorded_at :: timestamp

record audit_log =
  al_user_id :: uuid
  action :: string
  entity_type :: string
  entity_id :: uuid
  al_created_at :: timestamp

text \<open>
  What the handlers send out: a push to a user (\<open>notifyDriver\<close>, \<open>notifyClient\<close>; the
  recipient is absent when the handler passes \<open>undefined\<close>) or a socket event to a room.
\<close>

datatype room = admin_room | trip_room uuid

datatype outbound =
  NotifyDriver "uuid option" string uuid
  | NotifyClient uuid string uuid
  | SocketEmit room string uuid

record store =
  users :: "user_row list"
  driver_profiles :: "driver_profile list"
  trips :: "trip list"
  pricing_configs :: "pricing_config list"
  trip_locations :: "trip_location list"
  audit_logs :: "audit_log list"
  outbox :: "outbound list"
  uuid_seq :: uuid

text \<open>
  What the handlers take from their surroundings: the support number of the process
  environment; how the record store reads a text value bound to a TIMESTAMP column at
  the statement's time (\<open>None\<close> when it rejects the text, and the query throws);
  PostGIS's \<open>ST_Distance\<close> on geographies, in metres; and the server's local time.
\<close>

record env =
  SUPPORT_PHONE :: string
  timestamp_input :: "string \<Rightarrow> timestamp \<Rightarrow> timestamp option"
  ST_Distance :: "geo_point \<Rightarrow> geo_point \<Rightarrow> real"
  local_time :: "timestamp \<Rightarrow> js_date"

text \<open>An error response: \<open>res.status(code).json({success: false, error})\<close>.\<close>

datatype failure = Failure nat string

section \<open>Location utilities (backend/src/utils/location.js)\<close>

definition ten_minutes :: timestamp where
  "ten_minutes = 600000000"

definition calculateETA :: "real \<Rightarrow> real" where
  "calculateETA distanceKm =
     (let averageSpeedKmh = 30; timeHours = distanceKm / averageSpeedKmh
      in max (Math_round (timeHours * 60)) 3)"

text \<open>
  The rows of the query of \<open>findNearbyDrivers\<close>: a profile, its user and the distance in
  kilometres. A comparison with NULL is not true, so a profile without a location or
  without a last update is filtered out. \<open>ST_DWithin\<close> holds when \<open>ST_Distance\<close> is at most
  the radius. \<open>ORDER BY\<close> is a sort on the distance, \<open>LIMIT 20\<close> keeps the first twenty.
\<close>

definition fresh :: "timestamp \<Rightarrow> driver_profile \<Rightarrow> bool" where
  "fresh now dp =
     (case last_location_update dp of None \<Rightarrow> False | Some t \<Rightarrow> t > now - ten_minutes)"

definition ST_DWithin :: "env \<Rightarrow> geo_point \<Rightarrow> real \<Rightarrow> driver_profile \<Rightarrow> bool" where
  "ST_DWithin E q metres dp =
     (case current_location dp of None \<Rightarrow> False | Some l \<Rightarrow> ST_Distance E l q \<le> metres)"

definition distance_km_of :: "env \<Rightarrow> geo_point \<Rightarrow> driver_profile \<Rightarrow> real" where
  "distance_km_of E q dp =
     (case current_location dp of None \<Rightarrow> 0 | Some l \<Rightarrow> ST_Distance E l q / 1000)"

definition nearby_rows ::
  "env \<Rightarrow> timestamp \<Rightarrow> real \<Rightarrow> real \<Rightarrow> real \<Rightarrow> store \<Rightarrow> (driver_profile \<times> user_row \<times> real) list" where
  "nearby_rows E now x y metres s =
     (let q = \<lparr>st_x = x, st_y = y\<rparr>;
          joined = [(dp, u, distance_km_of E q dp).
                      dp \<leftarrow> driver_profiles s, u \<leftarrow> users s, user_id dp = u_id u,
                      is_available dp = True \<and> approval dp = approved \<and> u_status u = active
                      \<and> ST_DWithin E q metres dp \<and> fresh now dp]
      in take 20 (sort_key (\<lambda>(dp, u, distance_km). distance_km) joined))"

text \<open>
  A returned driver. \<open>distance_km\<close> is kept as the number; the source formats it with
  \<open>toFixed(1)\<close>.
\<close>

record nearby_driver =
  nd_id :: uuid
  nd_name :: string
  nd_phone :: string
  nd_rating :: real
  nd_total_trips :: int
  nd_profile_photo_url :: string
  nd_distance_km :: real
  nd_eta_minutes :: real
  nd_location :: "geo_point option"

definition findNearbyDrivers ::
  "env \<Rightarrow> timestamp \<Rightarrow> real \<Rightarrow> real \<Rightarrow> real \<Rightarrow> store \<Rightarrow> nearby_driver list" where
  "findNearbyDrivers E now latitude longitude radiusKm s =
     map (\<lambda>(dp, u, distance_km).
            \<lparr>nd_id = user_id dp, nd_name = full_name u, nd_phone = phone_number u,
             nd_rating = rating_average dp, nd_total_trips = total_trips dp,
             nd_profile_photo_url = profile_photo_url dp,
             nd_distance_km = distance_km, nd_eta_minutes = calculateETA distance_km,
             nd_location = current_location dp\<rparr>)
         (nearby_rows E now longitude latitude (radiusKm * 1000) s)"

definition updateDriverLocation :: "timestamp \<Rightarrow> uuid \<Rightarrow> real \<Rightarrow> real \<Rightarrow> store \<Rightarrow> store" where
  "updateDriverLocation now driverId latitude longitude s =
     s\<lparr>driver_profiles :=
         map (\<lambda>dp. if user_id dp = driverId
                    then dp\<lparr>current_location := Some \<lparr>st_x = longitude, st_y = latitude\<rparr>,
                            last_location_update := Some now\<rparr>
                    else dp)
             (driver_profiles s)\<rparr>"

definition isWithinServiceArea :: "real \<Rightarrow> real \<Rightarrow> bool" where
  "isWithinServiceArea latitude longitude =
     (let north = - 1163 / 1000; south = - 1444 / 1000;
          east = 37103 / 1000; west = 36651 / 1000
      in latitude \<ge> south \<and> latitude \<le> north \<and> longitude \<ge> west \<and> longitude \<le> east)"

text \<open>\<open>validateCoordinates\<close> on two numbers (the \<open>typeof\<close> tests hold).\<close>

definition validateCoordinates :: "real \<Rightarrow> real \<Rightarrow> bool" where
  "validateCoordinates latitude longitude =
     (latitude \<ge> - 90 \<and> latitude \<le> 90 \<and> longitude \<ge> - 180 \<and> longitude \<le> 180)"


section \<open>Trip routes (backend/src/routes/trips.js)\<close>

subsection \<open>POST /request\<close>

text \<open>
  A location of the request body: each property is a number or absent. \<open>js_not v\<close> is
  JavaScript's \<open>!v\<close> on such a value: true for an absent property and for the number 0.
  \<open>opt_get l f\<close> is \<open>l?.f\<close>.
\<close>

record location_json =
  latitude :: "real option"
  longitude :: "real option"
  address :: "string option"

definition js_not :: "real option \<Rightarrow> bool" where
  "js_not v = (case v of None \<Rightarrow> True | Some x \<Rightarrow> x = 0)"

definition opt_get :: "location_json option \<Rightarrow> (location_json \<Rightarrow> real option) \<Rightarrow> real option" where
  "opt_get l f = (case l of None \<Rightarrow> None | Some x \<Rightarrow> f x)"

record request_response =
  rr_trip_id :: uuid
  rr_estimated_price :: real
  rr_estimated_distance_km :: real
  rr_estimated_duration_min :: real
  rr_available_drivers_count :: nat

text \<open>
  \<open>SELECT * FROM pricing_config WHERE is_active = true ORDER BY created_at DESC LIMIT 1\<close>:
  the first row of the result, if there is one.
\<close>

definition active_pricing :: "store \<Rightarrow> pricing_config option" where
  "active_pricing s =
     (case rev (sort_key created_at [c \<leftarrow> pricing_configs s. is_active c]) of
        [] \<Rightarrow> None | c # _ \<Rightarrow> Some c)"

definition invalid_location :: failure where
  "invalid_location = Failure 400 ''Invalid pickup or dropoff location''"

definition request_failed :: failure where
  "request_failed = Failure 500 ''Failed to create trip request''"

text \<open>
  The handler after its location check. Without an active pricing row
  \<open>calculatePrice\<close> reads a property of \<open>undefined\<close>; without an address the
  INSERT violates NOT NULL, and for a client who is no row of \<open>users\<close> it violates
  the foreign key of \<open>trips.client_id\<close>: each throws, and the handler answers 500.
  The drivers found have no \<open>user_id\<close> property, so each push goes to
  \<open>undefined\<close>.
\<close>

definition request_checked ::
  "env \<Rightarrow> timestamp \<Rightarrow> uuid \<Rightarrow> real \<Rightarrow> real \<Rightarrow> string option \<Rightarrow> real \<Rightarrow> real \<Rightarrow> string option
     \<Rightarrow> store \<Rightarrow> (failure + request_response) \<times> store" where
  "request_checked E now client p_lat p_lon p_addr d_lat d_lon d_addr s =
     (let distance = calculateDistance p_lat p_lon d_lat d_lon in
      case active_pricing s of
        None \<Rightarrow> (Inl request_failed, s)
      | Some config \<Rightarrow>
          (let estimatedPrice = calculatePrice distance (local_time E now) config;
               estimatedDuration = Math_round (distance / (6 / 10)) in
           case (p_addr, d_addr) of
             (Some pa, Some da) \<Rightarrow>
               if client \<notin> set (map u_id (users s)) then (Inl request_failed, s) else
               (let new_trip =
                      \<lparr>trip_id = uuid_seq s, client_id = client, driver_id = None,
                       pickup_location = \<lparr>st_x = p_lon, st_y = p_lat\<rparr>, pickup_address = pa,
                       dropoff_location = \<lparr>st_x = d_lon, st_y = d_lat\<rparr>, dropoff_address = da,
                       estimated_distance_km = distance,
                       estimated_duration_min = estimatedDuration,
                       estimated_price = estimatedPrice, status = pending,
                       requested_at = now, accepted_at = None, started_at = None,
                       completed_at = None, cancelled_at = None, sos_triggered = False,
                       sos_triggered_at = None, updated_at = now\<rparr>;
                    s1 = s\<lparr>trips := trips s @ [new_trip], uuid_seq := uuid_seq s + 1\<rparr>;
                    nearbyDrivers = findNearbyDrivers E now p_lat p_lon 5 s1;
                    s2 = s1\<lparr>outbox := outbox s1 @
                            map (\<lambda>driver. NotifyDriver None ''new_trip_request'' (trip_id new_trip))
                                nearbyDrivers\<rparr>;
                    s3 = s2\<lparr>audit_logs := audit_logs s2 @
                            [\<lparr>al_user_id = client, action = ''trip_requested'',
                              entity_type = ''trip'', entity_id = trip_id new_trip,
                              al_created_at = now\<rparr>]\<rparr>
                in (Inr \<lparr>rr_trip_id = trip_id new_trip,
                         rr_estimated_price = estimated_price new_trip,
                         rr_estimated_distance_km = estimated_distance_km new_trip,
                         rr_estimated_duration_min = estimated_duration_min new_trip,
                         rr_available_drivers_count = length nearbyDrivers\<rparr>, s3))
           | _ \<Rightarrow> (Inl request_failed, s)))"

definition request_trip ::
  "env \<Rightarrow> timestamp \<Rightarrow> uuid \<Rightarrow> location_json option \<Rightarrow> location_json option
     \<Rightarrow> store \<Rightarrow> (failure + request_response) \<times> store" where
  "request_trip E now client pickup dropoff s =
     (if js_not (opt_get pickup latitude) \<or> js_not (opt_get pickup longitude) \<or>
         js_not (opt_get dropoff latitude) \<or> js_not (opt_get dropoff longitude)
      then (Inl invalid_location, s)
      else
        (case (pickup, dropoff) of
           (Some p, Some d) \<Rightarrow>
             (case (latitude p, longitude p, latitude d, longitude d) of
                (Some p_lat, Some p_lon, Some d_lat, Some d_lon) \<Rightarrow>
                  request_checked E now client p_lat p_lon (address p) d_lat d_lon (address d) s
              | _ \<Rightarrow> (Inl invalid_location, s))
         | _ \<Rightarrow> (Inl invalid_location, s)))"

subsection \<open>POST /:trip_id/accept\<close>

record accept_response =
  ar_id :: uuid
  ar_client_name :: string
  ar_client_phone :: string
  ar_pickup_address :: string
  ar_dropoff_address :: string
  ar_estimated_price :: real

definition not_approved_or_available :: failure where
  "not_approved_or_available = Failure 403 ''Driver not approved or not available''"

definition stale_offer :: failure where
  "stale_offer = Failure 409 ''Trip already accepted by another driver or cancelled''"

definition accept_failed :: failure where
  "accept_failed = Failure 500 ''Failed to accept trip''"

text \<open>The driver check: the first profile row of the driver is approved and available.\<close>

definition driverCheck :: "store \<Rightarrow> uuid \<Rightarrow> bool" where
  "driverCheck s driver =
     (case [dp \<leftarrow> driver_profiles s. user_id dp = driver] of
        [] \<Rightarrow> False
      | dp # _ \<Rightarrow> approval dp = approved \<and> is_available dp)"

text \<open>
  The rest of the transaction, from the conditional UPDATE to the response. The UPDATE
  changes the rows with this id whose status is pending and returns them; with no such
  row the transaction is rolled back. The client's name is read from \<open>rows[0]\<close> of the
  users query only when the response is built, after COMMIT, the push and the audit row.
\<close>

definition accept_update ::
  "timestamp \<Rightarrow> uuid \<Rightarrow> uuid \<Rightarrow> store \<Rightarrow> (failure + accept_response) \<times> store" where
  "accept_update now tid driver s =
     (let hit = (\<lambda>t. trip_id t = tid \<and> status t = pending);
          bound = (\<lambda>t. t\<lparr>driver_id := Some driver, status := accepted, accepted_at := Some now\<rparr>)
      in case map bound [t \<leftarrow> trips s. hit t] of
           [] \<Rightarrow> (Inl stale_offer, s)
         | trip # _ \<Rightarrow>
             (let s1 = s\<lparr>trips := map (\<lambda>t. if hit t then bound t else t) (trips s)\<rparr>;
                  s2 = s1\<lparr>driver_profiles :=
                          map (\<lambda>dp. if user_id dp = driver then dp\<lparr>is_available := False\<rparr> else dp)
                              (driver_profiles s1)\<rparr>;
                  clientResult = [u \<leftarrow> users s2. u_id u = client_id trip];
                  s3 = s2\<lparr>outbox := outbox s2 @
                          [NotifyClient (client_id trip) ''trip_accepted'' (trip_id trip)]\<rparr>;
                  s4 = s3\<lparr>audit_logs := audit_logs s3 @
                          [\<lparr>al_user_id = driver, action = ''trip_accepted'',
                            entity_type = ''trip'', entity_id = trip_id trip,
                            al_created_at = now\<rparr>]\<rparr>
              in case clientResult of
                   [] \<Rightarrow> (Inl accept_failed, s4)
                 | u # _ \<Rightarrow>
                     (Inr \<lparr>ar_id = trip_id trip, ar_client_name = full_name u,
                           ar_client_phone = phone_number u,
                           ar_pickup_address = pickup_address trip,
                           ar_dropoff_address = dropoff_address trip,
                           ar_estimated_price = estimated_price trip\<rparr>, s4)))"

definition accept_trip ::
  "timestamp \<Rightarrow> uuid \<Rightarrow> uuid \<Rightarrow> store \<Rightarrow> (failure + accept_response) \<times> store" where
  "accept_trip now tid driver s =
     (if \<not> driverCheck s driver then (Inl not_approved_or_available, s)
      else accept_update now tid driver s)"


subsection \<open>PATCH /:trip_id/status\<close>

definition validStatuses :: "string list" where
  "validStatuses =
     [''driver_arriving'', ''in_progress'', ''completed'', ''cancelled_by_client'',
      ''cancelled_by_driver'']"

text \<open>The value of the status column that a text denotes.\<close>

definition status_of_string :: "string \<Rightarrow> trip_status option" where
  "status_of_string x =
     (if x = ''pending'' then Some pending
      else if x = ''accepted'' then Some accepted
      else if x = ''driver_arriving'' then Some driver_arriving
      else if x = ''in_progress'' then Some in_progress
      else if x = ''completed'' then Some completed
      else if x = ''cancelled_by_client'' then Some cancelled_by_client
      else if x = ''cancelled_by_driver'' then Some cancelled_by_driver
      else None)"

text \<open>\<open>status.includes('cancelled')\<close>, on a status that passed the check above.\<close>

definition includes_cancelled :: "trip_status \<Rightarrow> bool" where
  "includes_cancelled st = (st = cancelled_by_client \<or> st = cancelled_by_driver)"

definition invalid_status :: failure where
  "invalid_status = Failure 400 ''Invalid status''"

definition trip_not_found :: failure where
  "trip_not_found = Failure 404 ''Trip not found''"

definition unauthorized :: failure where
  "unauthorized = Failure 403 ''Unauthorized''"

definition status_failed :: failure where
  "status_failed = Failure 500 ''Failed to update trip status''"

text \<open>
  \<open>updateFields\<close> as the change it makes to a row. For \<open>in_progress\<close>, \<open>completed\<close> and
  the cancelled statuses the handler binds the text \<open>CURRENT_TIMESTAMP\<close> as the value
  of a timestamp column: what is stored, or whether the statement fails, is the record
  store's reading of that text.
\<close>

definition updateFields :: "env \<Rightarrow> timestamp \<Rightarrow> trip_status \<Rightarrow> (trip \<Rightarrow> trip) option" where
  "updateFields E now st =
     (if st = in_progress then
        map_option (\<lambda>v t. t\<lparr>status := st, started_at := Some v\<rparr>)
          (timestamp_input E ''CURRENT_TIMESTAMP'' now)
      else if st = completed then
        map_option (\<lambda>v t. t\<lparr>status := st, completed_at := Some v\<rparr>)
          (timestamp_input E ''CURRENT_TIMESTAMP'' now)
      else if includes_cancelled st then
        map_option (\<lambda>v t. t\<lparr>status := st, cancelled_at := Some v\<rparr>)
          (timestamp_input E ''CURRENT_TIMESTAMP'' now)
      else Some (\<lambda>t. t\<lparr>status := st\<rparr>))"

definition update_status ::
  "env \<Rightarrow> timestamp \<Rightarrow> uuid \<Rightarrow> string \<Rightarrow> uuid \<Rightarrow> store \<Rightarrow> (failure + trip) \<times> store" where
  "update_status E now tid status_text user s =
     (if status_text \<notin> set validStatuses then (Inl invalid_status, s)
      else
        case status_of_string status_text of
          None \<Rightarrow> (Inl invalid_status, s)
        | Some st \<Rightarrow>
            (case [t \<leftarrow> trips s. trip_id t = tid] of
               [] \<Rightarrow> (Inl trip_not_found, s)
             | trip # _ \<Rightarrow>
                 if client_id trip \<noteq> user \<and> driver_id trip \<noteq> Some user
                 then (Inl unauthorized, s)
                 else
                   (case updateFields E now st of
                      None \<Rightarrow> (Inl status_failed, s)
                    | Some upd \<Rightarrow>
                        (let set_row = (\<lambda>t. (upd t)\<lparr>updated_at := now\<rparr>);
                             s1 = s\<lparr>trips := map (\<lambda>t. if trip_id t = tid then set_row t else t)
                                                 (trips s)\<rparr>;
                             updatedTrip = set_row trip;
                             s2 = (if st = completed \<or> includes_cancelled st
                                   then s1\<lparr>driver_profiles :=
                                          map (\<lambda>dp. if Some (user_id dp) = driver_id trip
                                                     then dp\<lparr>is_available := True\<rparr> else dp)
                                              (driver_profiles s1)\<rparr>
                                   else s1);
                             notifyUserId = (if user = client_id trip then driver_id trip
                                             else Some (client_id trip));
                             s3 = (case notifyUserId of
                                     None \<Rightarrow> s2
                                   | Some n \<Rightarrow>
                                       s2\<lparr>outbox := outbox s2 @
                                            [NotifyDriver (Some n) ''trip_status_change'' tid]\<rparr>);
                             s4 = s3\<lparr>audit_logs := audit_logs s3 @
                                     [\<lparr>al_user_id = user, action = ''trip_status_updated'',
                                       entity_type = ''trip'', entity_id = tid,
                                       al_created_at = now\<rparr>]\<rparr>
                         in (Inr updatedTrip, s4)))))"

subsection \<open>POST /:trip_id/location\<close>

definition not_in_progress :: failure where
  "not_in_progress = Failure 403 ''Not authorized or trip not in progress''"

definition report_location ::
  "timestamp \<Rightarrow> uuid \<Rightarrow> uuid \<Rightarrow> real \<Rightarrow> real \<Rightarrow> real \<Rightarrow> real \<Rightarrow> store \<Rightarrow> (failure + unit) \<times> store" where
  "report_location now tid driver lat lon speed hdg s =
     (case [t \<leftarrow> trips s. trip_id t = tid \<and> driver_id t = Some driver \<and> status t = in_progress] of
        [] \<Rightarrow> (Inl not_in_progress, s)
      | _ # _ \<Rightarrow>
          (let s1 = s\<lparr>trip_locations := trip_locations s @
                       [\<lparr>tl_trip_id = tid, tl_location = \<lparr>st_x = lon, st_y = lat\<rparr>,
                         speed_kmh = speed, heading = hdg, recorded_at = now\<rparr>]\<rparr>;
               s2 = s1\<lparr>outbox := outbox s1 @
                       [SocketEmit (trip_room tid) ''driver_location_update'' tid]\<rparr>
           in (Inr (), s2)))"


subsection \<open>POST /:trip_id/sos\<close>

record sos_response =
  sos_message :: string
  support_number :: string

definition sos_failed :: failure where
  "sos_failed = Failure 500 ''Failed to trigger SOS''"

text \<open>
  The handler does not read the trip's status. Each call raises the flag on the rows
  with this id, emits one \<open>sos_alert\<close> to the admin room and writes one
  \<open>sos_triggered\<close> audit row, which is the record of the emergency. The three steps
  are not one transaction. \<open>audit_logs.user_id\<close> references \<open>users\<close>: for a caller
  who is no row of \<open>users\<close> the INSERT throws, after the flag and the alert, and the
  handler answers 500.
\<close>

definition trigger_sos ::
  "env \<Rightarrow> timestamp \<Rightarrow> uuid \<Rightarrow> uuid \<Rightarrow> store \<Rightarrow> (failure + sos_response) \<times> store" where
  "trigger_sos E now tid user s =
     (let s1 = s\<lparr>trips := map (\<lambda>t. if trip_id t = tid
                                     then t\<lparr>sos_triggered := True, sos_triggered_at := Some now\<rparr>
                                     else t)
                               (trips s)\<rparr>;
          s2 = s1\<lparr>outbox := outbox s1 @ [SocketEmit admin_room ''sos_alert'' tid]\<rparr>
      in if user \<in> set (map u_id (users s2)) then
           (let s3 = s2\<lparr>audit_logs := audit_logs s2 @
                       [\<lparr>al_user_id = user, action = ''sos_triggered'', entity_type = ''trip'',
                         entity_id = tid, al_created_at = now\<rparr>]\<rparr>
            in (Inr \<lparr>sos_message = ''Emergency alert sent to support team'',
                     support_number = SUPPORT_PHONE E\<rparr>, s3))
         else (Inl sos_failed, s2))"

text \<open>The emergency records of a trip: its \<open>sos_triggered\<close> audit rows.\<close>

definition emergency_events :: "store \<Rightarrow> uuid \<Rightarrow> audit_log list" where
  "emergency_events s tid =
     [a \<leftarrow> audit_logs s. action a = ''sos_triggered'' \<and> entity_id a = tid]"

section \<open>Runs of the system\<close>

text \<open>A call of a handler that changes the store, and the store after a sequence of calls.\<close>

datatype call =
  RequestTrip uuid "location_json option" "location_json option"
  | AcceptTrip uuid uuid
  | UpdateStatus uuid string uuid
  | ReportLocation uuid uuid real real real real
  | TriggerSOS uuid uuid
  | UpdateDriverLocation uuid real real

fun run_call :: "env \<Rightarrow> timestamp \<Rightarrow> call \<Rightarrow> store \<Rightarrow> store" where
  "run_call E now (RequestTrip client pickup dropoff) s = snd (request_trip E now client pickup dropoff s)"
| "run_call E now (AcceptTrip tid driver) s = snd (accept_trip now tid driver s)"
| "run_call E now (UpdateStatus tid status_text user) s = snd (update_status E now tid status_text user s)"
| "run_call E now (ReportLocation tid driver lat lon speed hdg) s =
     snd (report_location now tid driver lat lon speed hdg s)"
| "run_call E now (TriggerSOS tid user) s = snd (trigger_sos E now tid user s)"
| "run_call E now (UpdateDriverLocation driver lat lon) s = updateDriverLocation now driver lat lon s"

fun run_calls :: "env \<Rightarrow> (timestamp \<times> call) list \<Rightarrow> store \<Rightarrow> store" where
  "run_calls E [] s = s"
| "run_calls E ((now, c) # cs) s = run_calls E cs (run_call E now c s)"

text \<open>The invariant the code keeps between a trip's status and its driver reference.\<close>

definition driver_bound_ok :: "trip \<Rightarrow> bool" where
  "driver_bound_ok t =
     ((status t = pending \<longrightarrow> driver_id t = None) \<and> (status t = accepted \<longrightarrow> driver_id t \<noteq> None))"

definition bound_ok :: "store \<Rightarrow> bool" where
  "bound_ok s = (\<forall>t\<in>set (trips s). driver_bound_ok t)"

text \<open>The invariant the specification states.\<close>

definition driver_iff_engaged :: "trip \<Rightarrow> bool" where
  "driver_iff_engaged t =
     ((driver_id t \<noteq> None) = (status t \<in> {accepted, driver_arriving, in_progress, completed}))"

subsection \<open>Concurrent accept calls\<close>

text \<open>
  Several accept calls in flight. Each call runs its driver check, then its
  transaction; the steps of different calls interleave in any order. A statement of the
  record store is atomic. The conditional UPDATE of one transaction waits for the row
  lock of another on the same trip until that one commits, and a driver check reads
  committed rows only, so the writes of a transaction take effect together, as one step.
\<close>

datatype phase = Started | Checked | Finished "failure + accept_response"

type_synonym accept_call = "uuid \<times> phase"

text \<open>
  A schedule names, step by step, the call that moves next and the time of the move. A
  call that has finished does not move again.
\<close>

fun accept_step :: "uuid \<Rightarrow> nat \<times> timestamp \<Rightarrow> store \<times> accept_call list \<Rightarrow> store \<times> accept_call list" where
  "accept_step tid (i, now) (s, cs) =
     (if i < length cs then
        (case cs ! i of
           (d, Started) \<Rightarrow>
             (s, cs[i := (d, if driverCheck s d then Checked
                              else Finished (Inl not_approved_or_available))])
         | (d, Checked) \<Rightarrow>
             (case accept_update now tid d s of (r, s') \<Rightarrow> (s', cs[i := (d, Finished r)]))
         | (d, Finished r) \<Rightarrow> (s, cs))
      else (s, cs))"

fun accept_run :: "uuid \<Rightarrow> (nat \<times> timestamp) list \<Rightarrow> store \<times> accept_call list \<Rightarrow> store \<times> accept_call list" where
  "accept_run tid [] c = c"
| "accept_run tid (x # xs) c = accept_run tid xs (accept_step tid x c)"

definition start_calls :: "uuid list \<Rightarrow> accept_call list" where
  "start_calls ds = map (\<lambda>d. (d, Started)) ds"

definition is_finished :: "phase \<Rightarrow> bool" where
  "is_finished p = (case p of Finished r \<Rightarrow> True | _ \<Rightarrow> False)"

definition all_finished :: "accept_call list \<Rightarrow> bool" where
  "all_finished cs = list_all (\<lambda>c. is_finished (snd c)) cs"

definition succeeded :: "accept_call \<Rightarrow> bool" where
  "succeeded c = (case snd c of Finished (Inr r) \<Rightarrow> True | _ \<Rightarrow> False)"

definition winners :: "accept_call list \<Rightarrow> nat list" where
  "winners cs = [i \<leftarrow> [0..<length cs]. succeeded (cs ! i)]"


subsection \<open>The invariant of concurrent accept calls\<close>

text \<open>
  Before any call has won, the store is as at the start, and a call has passed the
  driver check, or failed it, as its driver stood at the start. Once a call has won, the
  trip is bound to its driver, and every other call is still under way or has failed.
\<close>

definition early_phase :: "store \<Rightarrow> uuid \<Rightarrow> phase \<Rightarrow> bool" where
  "early_phase s0 d p =
     (case p of Started \<Rightarrow> True | Checked \<Rightarrow> driverCheck s0 d
      | Finished r \<Rightarrow> r = Inl not_approved_or_available \<and> \<not> driverCheck s0 d)"

definition loser_phase :: "store \<Rightarrow> uuid \<Rightarrow> uuid \<Rightarrow> phase \<Rightarrow> bool" where
  "loser_phase s0 dw d p =
     (case p of Started \<Rightarrow> True | Checked \<Rightarrow> True
      | Finished r \<Rightarrow> r = Inl stale_offer \<or>
          (r = Inl not_approved_or_available \<and> (\<not> driverCheck s0 d \<or> d = dw)))"

definition bound_to :: "uuid \<Rightarrow> uuid \<Rightarrow> store \<Rightarrow> bool" where
  "bound_to tid d s =
     ((\<forall>t\<in>set (trips s). trip_id t = tid \<longrightarrow> status t = accepted \<and> driver_id t = Some d)
      \<and> (\<exists>t\<in>set (trips s). trip_id t = tid)
      \<and> (\<forall>dp\<in>set (driver_profiles s). user_id dp = d \<longrightarrow> \<not> is_available dp))"

definition no_winner :: "store \<Rightarrow> store \<times> accept_call list \<Rightarrow> bool" where
  "no_winner s0 c =
     (case c of (s, cs) \<Rightarrow>
        trips s = trips s0 \<and> driver_profiles s = driver_profiles s0 \<and> users s = users s0
        \<and> (\<forall>j<length cs. early_phase s0 (fst (cs ! j)) (snd (cs ! j))))"

definition winner :: "store \<Rightarrow> uuid \<Rightarrow> nat \<Rightarrow> store \<times> accept_call list \<Rightarrow> bool" where
  "winner s0 tid w c =
     (case c of (s, cs) \<Rightarrow>
        w < length cs \<and> (\<exists>r. snd (cs ! w) = Finished (Inr r))
        \<and> bound_to tid (fst (cs ! w)) s
        \<and> (\<forall>d. driverCheck s d = (d \<noteq> fst (cs ! w) \<and> driverCheck s0 d))
        \<and> (\<forall>j<length cs. j \<noteq> w \<longrightarrow> loser_phase s0 (fst (cs ! w)) (fst (cs ! j)) (snd (cs ! j))))"

definition accept_inv :: "store \<Rightarrow> uuid \<Rightarrow> uuid list \<Rightarrow> store \<times> accept_call list \<Rightarrow> bool" where
  "accept_inv s0 tid ds c =
     (map fst (snd c) = ds \<and> (no_winner s0 c \<or> (\<exists>w. winner s0 tid w c)))"

text \<open>How far a call has come, and the schedule that moves every call twice.\<close>

definition rank :: "phase \<Rightarrow> nat" where
  "rank p = (case p of Started \<Rightarrow> 0 | Checked \<Rightarrow> 1 | Finished r \<Rightarrow> 2)"

definition round_robin :: "nat \<Rightarrow> timestamp \<Rightarrow> (nat \<times> timestamp) list" where
  "round_robin n now = map (\<lambda>i. (i, now)) ([0..<n] @ [0..<n])"

section \<open>Example data\<close>

text \<open>
  The record store of the examples rejects the text bound to a timestamp column, as
  PostgreSQL rejects \<open>CURRENT_TIMESTAMP\<close> given as a value. The distance of the
  examples is a stand-in for \<open>ST_Distance\<close>.
\<close>

definition flat_distance :: "geo_point \<Rightarrow> geo_point \<Rightarrow> real" where
  "flat_distance a b = 1000 * (\<bar>st_x a - st_x b\<bar> + \<bar>st_y a - st_y b\<bar>)"

definition env_strict :: env where
  "env_strict =
     \<lparr>SUPPORT_PHONE = ''+254700000000'', timestamp_input = (\<lambda>txt now. None),
      ST_Distance = flat_distance, local_time = (\<lambda>now. tue_20)\<rparr>"

definition amina :: user_row where
  "amina = \<lparr>u_id = 1, full_name = ''Amina'', phone_number = ''+254711000001'', u_status = active\<rparr>"
definition baraka :: user_row where
  "baraka = \<lparr>u_id = 2, full_name = ''Baraka'', phone_number = ''+254711000002'', u_status = active\<rparr>"
definition chege :: user_row where
  "chege = \<lparr>u_id = 3, full_name = ''Chege'', phone_number = ''+254711000003'', u_status = active\<rparr>"

definition baraka_profile :: driver_profile where
  "baraka_profile =
     \<lparr>user_id = 2, approval = approved, is_available = True,
      current_location = Some \<lparr>st_x = 3682 / 100, st_y = - 129 / 100\<rparr>,
      last_location_update = Some 0, rating_average = 49 / 10, total_trips = 150,
      profile_photo_url = ''''\<rparr>"

definition chege_profile :: driver_profile where
  "chege_profile =
     \<lparr>user_id = 3, approval = approval_pending, is_available = True,
      current_location = Some \<lparr>st_x = 3682 / 100, st_y = - 128 / 100\<rparr>,
      last_location_update = Some 0, rating_average = 0, total_trips = 0,
      profile_photo_url = ''''\<rparr>"

definition store0 :: store where
  "store0 =
     \<lparr>users = [amina, baraka, chege], driver_profiles = [baraka_profile, chege_profile],
      trips = [], pricing_configs = [defaultConfig], trip_locations = [], audit_logs = [],
      outbox = [], uuid_seq = 7\<rparr>"

definition westlands :: location_json where
  "westlands = \<lparr>latitude = Some (- 1286389 / 1000000), longitude = Some (36817223 / 1000000),
                 address = Some ''Westlands, Nairobi''\<rparr>"
definition kilimani :: location_json where
  "kilimani = \<lparr>latitude = Some (- 1292066 / 1000000), longitude = Some (36821945 / 1000000),
                address = Some ''Kilimani, Nairobi''\<rparr>"
definition nanyuki :: location_json where
  "nanyuki = \<lparr>latitude = Some 0, longitude = Some (3707 / 100), address = Some ''Nanyuki''\<rparr>"
definition beyond_pole :: location_json where
  "beyond_pole = \<lparr>latitude = Some 95, longitude = Some 200, address = Some ''Nowhere''\<rparr>"

definition mombasa :: location_json where
  "mombasa = \<lparr>latitude = Some (- 40435 / 10000), longitude = Some (396682 / 10000),
               address = Some ''Moi Avenue, Mombasa''\<rparr>"

definition finished_trip :: trip where
  "finished_trip =
     \<lparr>trip_id = 5, client_id = 1, driver_id = Some 2,
      pickup_location = \<lparr>st_x = 36817223 / 1000000, st_y = - 1286389 / 1000000\<rparr>,
      pickup_address = ''Westlands, Nairobi'',
      dropoff_location = \<lparr>st_x = 36821945 / 1000000, st_y = - 1292066 / 1000000\<rparr>,
      dropoff_address = ''Kilimani, Nairobi'',
      estimated_distance_km = 8 / 10, estimated_duration_min = 1, estimated_price = 400,
      status = completed, requested_at = 0, accepted_at = Some 1, started_at = Some 2,
      completed_at = Some 3, cancelled_at = None, sos_triggered = False,
      sos_triggered_at = None, updated_at = 3\<rparr>"

definition store_done :: store where
  "store_done = store0\<lparr>trips := [finished_trip]\<rparr>"

definition dalila :: user_row where
  "dalila = \<lparr>u_id = 4, full_name = ''Dalila'', phone_number = ''+254711000004'', u_status = active\<rparr>"
definition eshe :: user_row where
  "eshe = \<lparr>u_id = 5, full_name = ''Eshe'', phone_number = ''+254711000005'', u_status = active\<rparr>"
definition faraji :: user_row where
  "faraji = \<lparr>u_id = 6, full_name = ''Faraji'', phone_number = ''+254711000006'', u_status = active\<rparr>"

definition dalila_profile :: driver_profile where
  "dalila_profile =
     \<lparr>user_id = 4, approval = approved, is_available = True,
      current_location = Some \<lparr>st_x = 3682 / 100, st_y = - 130 / 100\<rparr>,
      last_location_update = Some (- 600000001), rating_average = 5, total_trips = 10,
      profile_photo_url = ''''\<rparr>"

definition eshe_profile :: driver_profile where
  "eshe_profile =
     \<lparr>user_id = 5, approval = approved, is_available = True,
      current_location = Some \<lparr>st_x = 3682 / 100, st_y = - 1295 / 1000\<rparr>,
      last_location_update = Some (- 1000), rating_average = 4, total_trips = 20,
      profile_photo_url = ''''\<rparr>"

definition faraji_profile :: driver_profile where
  "faraji_profile =
     \<lparr>user_id = 6, approval = approved, is_available = False,
      current_location = Some \<lparr>st_x = 3682 / 100, st_y = - 1299 / 1000\<rparr>,
      last_location_update = Some (- 1000), rating_average = 4, total_trips = 30,
      profile_photo_url = ''''\<rparr>"

definition store_fleet :: store where
  "store_fleet =
     store0\<lparr>users := [amina, baraka, chege, dalila, eshe, faraji],
            driver_profiles := [baraka_profile, chege_profile, dalila_profile, eshe_profile,
                                faraji_profile]\<rparr>"

definition pending_trip :: trip where
  "pending_trip = finished_trip\<lparr>trip_id := 7, driver_id := None, status := pending,
      accepted_at := None, started_at := None, completed_at := None, updated_at := 0\<rparr>"

definition store_pending :: store where
  "store_pending = store0\<lparr>trips := [pending_trip]\<rparr>"

definition calls_skip :: "(timestamp \<times> call) list" where
  "calls_skip =
     [(0, RequestTrip 1 (Some westlands) (Some kilimani)),
      (1, UpdateStatus 7 ''driver_arriving'' 1)]"

text \<open>A race for the pending trip, and two schedules.\<close>

definition store_race :: store where
  "store_race = store_fleet\<lparr>trips := [pending_trip]\<rparr>"

definition race_schedule :: "(nat \<times> timestamp) list" where
  "race_schedule = [(0, 10), (1, 11), (2, 12), (1, 13), (0, 14)]"

definition short_schedule :: "(nat \<times> timestamp) list" where
  "short_schedule = [(0, 10), (0, 11), (1, 12)]"

section \<open>Properties of the numbers\<close>

text \<open>
  Rounding to a double is monotone, leaves a double as it is, and moves a number of
  magnitude below \<open>2 powi (j + 1)\<close> by \<open>2 powi (j - 53)\<close> at most.
\<close>

lemma round_even_of_int [simp]: "round_even (of_int k) = k"
  by (simp add: round_even_def)

lemma round_even_bounds: "\<lfloor>x\<rfloor> \<le> round_even x \<and> round_even x \<le> \<lfloor>x\<rfloor> + 1"
  by (simp add: round_even_def Let_def)

lemma round_even_mono: "x \<le> y \<Longrightarrow> round_even x \<le> round_even y"
proof (cases "\<lfloor>x\<rfloor> = \<lfloor>y\<rfloor>")
  case True
  assume "x \<le> y"
  then show ?thesis using True by (simp add: round_even_def Let_def)
next
  case False
  assume "x \<le> y"
  then have "\<lfloor>x\<rfloor> \<le> \<lfloor>y\<rfloor>" by (rule floor_mono)
  with False have "\<lfloor>x\<rfloor> + 1 \<le> \<lfloor>y\<rfloor>" by simp
  with round_even_bounds [of x] round_even_bounds [of y] show ?thesis by linarith
qed

lemma round_even_near: "\<bar>of_int (round_even x) - x\<bar> \<le> 1 / 2"
proof -
  have b: "of_int \<lfloor>x\<rfloor> \<le> x" "x < of_int \<lfloor>x\<rfloor> + 1" by linarith+
  consider "x - of_int \<lfloor>x\<rfloor> < 1 / 2" | "1 / 2 < x - of_int \<lfloor>x\<rfloor>" | "x - of_int \<lfloor>x\<rfloor> = 1 / 2"
    by linarith
  then show ?thesis
  proof cases
    case 1
    then have "round_even x = \<lfloor>x\<rfloor>" by (simp add: round_even_def Let_def)
    with 1 b show ?thesis by simp
  next
    case 2
    then have "round_even x = \<lfloor>x\<rfloor> + 1" by (simp add: round_even_def Let_def)
    with 2 b show ?thesis by simp
  next
    case 3
    then have "round_even x = \<lfloor>x\<rfloor> \<or> round_even x = \<lfloor>x\<rfloor> + 1"
      by (simp add: round_even_def Let_def)
    with 3 show ?thesis by auto
  qed
qed

lemma expo_from_range: "e \<le> expo_from n e a \<and> expo_from n e a \<le> e + int n"
proof (induction n arbitrary: e)
  case 0 show ?case by simp
next
  case (Suc n)
  from Suc [of "e + 1"] show ?case by simp
qed

lemma expo_from_lower: "e < expo_from n e a \<Longrightarrow> 2 powi (expo_from n e a) \<le> a"
proof (induction n arbitrary: e)
  case 0 then show ?case by simp
next
  case (Suc n)
  show ?case
  proof (cases "a < 2 powi (e + 1)")
    case True with Suc.prems show ?thesis by simp
  next
    case False
    then have eq: "expo_from (Suc n) e a = expo_from n (e + 1) a" by simp
    show ?thesis
    proof (cases "e + 1 < expo_from n (e + 1) a")
      case True
      from Suc.IH [OF True] show ?thesis by (simp only: eq)
    next
      case f: False
      with expo_from_range [of "e + 1" n a] have "expo_from n (e + 1) a = e + 1" by simp
      with False show ?thesis by (simp add: eq not_less del: expo_from.simps)
    qed
  qed
qed

lemma expo_from_upper: "expo_from n e a < e + int n \<Longrightarrow> a < 2 powi (expo_from n e a + 1)"
proof (induction n arbitrary: e)
  case 0 then show ?case by simp
next
  case (Suc n)
  show ?case
  proof (cases "a < 2 powi (e + 1)")
    case True then show ?thesis by simp
  next
    case False
    then have eq: "expo_from (Suc n) e a = expo_from n (e + 1) a" by simp
    from Suc.prems have "expo_from n (e + 1) a < e + 1 + int n" by (simp add: eq del: expo_from.simps)
    from Suc.IH [OF this] show ?thesis by (simp only: eq)
  qed
qed

lemma exponent_range: "- 1022 \<le> exponent x \<and> exponent x \<le> 1023"
  using expo_from_range [of "- 1022" 2045 "\<bar>x\<bar>"] by (simp add: exponent_def)

lemma exponent_lower: "- 1022 < exponent x \<Longrightarrow> 2 powi (exponent x) \<le> \<bar>x\<bar>"
  unfolding exponent_def by (rule expo_from_lower)

lemma exponent_upper: "exponent x < 1023 \<Longrightarrow> \<bar>x\<bar> < 2 powi (exponent x + 1)"
  unfolding exponent_def by (rule expo_from_upper) simp

lemma two_powi_less: "(2::real) powi a < 2 powi b \<Longrightarrow> a < b"
proof (rule ccontr)
  assume a: "(2::real) powi a < 2 powi b" and "\<not> a < b"
  then have "b \<le> a" by simp
  then have "(2::real) powi b \<le> 2 powi a" by (rule power_int_increasing) simp
  with a show False by simp
qed

lemma exponent_le: "\<bar>x\<bar> < 2 powi (j + 1) \<Longrightarrow> - 1022 \<le> j \<Longrightarrow> exponent x \<le> j"
proof (rule ccontr)
  assume a: "\<bar>x\<bar> < 2 powi (j + 1)" and j: "- 1022 \<le> j" and n: "\<not> exponent x \<le> j"
  then have "- 1022 < exponent x" by simp
  from exponent_lower [OF this] a have "(2::real) powi exponent x < 2 powi (j + 1)" by simp
  from two_powi_less [OF this] n show False by simp
qed

lemma exponent_ge: "2 powi j \<le> \<bar>x\<bar> \<Longrightarrow> j \<le> 1023 \<Longrightarrow> j \<le> exponent x"
proof (rule ccontr)
  assume a: "2 powi j \<le> \<bar>x\<bar>" and j: "j \<le> 1023" and n: "\<not> j \<le> exponent x"
  then have "exponent x < 1023" by simp
  from exponent_upper [OF this] a have "(2::real) powi j < 2 powi (exponent x + 1)" by simp
  from two_powi_less [OF this] n show False by simp
qed

lemma exponent_eq:
  "2 powi e \<le> \<bar>x\<bar> \<Longrightarrow> \<bar>x\<bar> < 2 powi (e + 1) \<Longrightarrow> - 1022 \<le> e \<Longrightarrow> e \<le> 1023 \<Longrightarrow> exponent x = e"
  using exponent_le [of x e] exponent_ge [of e x] by simp

lemma exponent_mono: "\<bar>x\<bar> \<le> \<bar>y\<bar> \<Longrightarrow> exponent x \<le> exponent y"
proof (cases "exponent y < 1023")
  case True
  assume "\<bar>x\<bar> \<le> \<bar>y\<bar>"
  with exponent_upper [OF True] have "\<bar>x\<bar> < 2 powi (exponent y + 1)" by simp
  then show ?thesis using exponent_range [of y] by (intro exponent_le) simp_all
next
  case False
  with exponent_range [of x] show ?thesis by simp
qed


lemma binary64_round_to: "binary64 x = round_to (exponent x - 52) x"
  by (simp add: binary64_def)

lemma round_to_mono: "x \<le> y \<Longrightarrow> round_to q x \<le> round_to q y"
proof -
  assume "x \<le> y"
  then have "x / 2 powi q \<le> y / 2 powi q" by (simp add: divide_right_mono)
  then have "round_even (x / 2 powi q) \<le> round_even (y / 2 powi q)" by (rule round_even_mono)
  then show ?thesis by (simp add: round_to_def)
qed

lemma round_to_grid: "round_to q (of_int k * 2 powi q) = of_int k * 2 powi q"
  by (simp add: round_to_def)

lemma round_to_near: "\<bar>round_to q x - x\<bar> \<le> 2 powi q / 2"
proof -
  have p: "(0::real) < 2 powi q" by simp
  have "round_to q x - x = (of_int (round_even (x / 2 powi q)) - x / 2 powi q) * 2 powi q"
    by (simp add: round_to_def left_diff_distrib)
  then have "\<bar>round_to q x - x\<bar> = \<bar>of_int (round_even (x / 2 powi q)) - x / 2 powi q\<bar> * 2 powi q"
    by (simp only: abs_mult) simp
  also have "\<dots> \<le> 1 / 2 * 2 powi q"
    by (rule mult_right_mono [OF round_even_near]) simp
  finally show ?thesis by simp
qed

lemma two_powi_shift: "(2::real) powi (e + 1) = of_int (2 ^ 53) * 2 powi (e - 52)"
proof -
  have "e + 1 = 53 + (e - 52)" by simp
  then have "(2::real) powi (e + 1) = 2 powi (53 + (e - 52))" by (rule arg_cong)
  also have "\<dots> = 2 powi 53 * 2 powi (e - 52)" by (rule power_int_add) simp
  finally show ?thesis by simp
qed

lemma two_powi_shift0: "(2::real) powi e = of_int (2 ^ 52) * 2 powi (e - 52)"
proof -
  have "e = 52 + (e - 52)" by simp
  then have "(2::real) powi e = 2 powi (52 + (e - 52))" by (rule arg_cong)
  also have "\<dots> = 2 powi 52 * 2 powi (e - 52)" by (rule power_int_add) simp
  finally show ?thesis by simp
qed

text \<open>A point of the grid of \<open>x\<close> on one side of \<open>x\<close> is on the same side of \<open>binary64 x\<close>.\<close>

lemma binary64_above:
  "of_int k * 2 powi (exponent x - 52) \<le> x \<Longrightarrow> of_int k * 2 powi (exponent x - 52) \<le> binary64 x"
  using round_to_mono [of "of_int k * 2 powi (exponent x - 52)" x "exponent x - 52"]
  by (simp add: binary64_round_to round_to_grid)

lemma binary64_below:
  "x \<le> of_int k * 2 powi (exponent x - 52) \<Longrightarrow> binary64 x \<le> of_int k * 2 powi (exponent x - 52)"
  using round_to_mono [of x "of_int k * 2 powi (exponent x - 52)" "exponent x - 52"]
  by (simp add: binary64_round_to round_to_grid)

lemma binary64_mono: "x \<le> y \<Longrightarrow> binary64 x \<le> binary64 y"
proof -
  assume xy: "x \<le> y"
  consider "exponent x = exponent y" | "exponent x < exponent y" | "exponent y < exponent x"
    by linarith
  then show ?thesis
  proof cases
    case 1
    with round_to_mono [OF xy] show ?thesis by (simp add: binary64_round_to)
  next
    case 2
    have "\<not> \<bar>y\<bar> \<le> \<bar>x\<bar>" using exponent_mono [of y x] 2 by auto
    with xy have y: "\<bar>y\<bar> = y" and x: "x \<le> \<bar>x\<bar>" by simp_all
    from 2 exponent_range [of x] have "- 1022 < exponent y" by simp
    from exponent_lower [OF this] y have "of_int (2 ^ 52) * 2 powi (exponent y - 52) \<le> y"
      by (simp only: two_powi_shift0 [symmetric])
    from binary64_above [OF this] have ly: "2 powi exponent y \<le> binary64 y"
      by (simp only: two_powi_shift0 [symmetric])
    from 2 exponent_range [of y] have "exponent x < 1023" by simp
    from exponent_upper [OF this] x have "x \<le> of_int (2 ^ 53) * 2 powi (exponent x - 52)"
      by (simp only: two_powi_shift [symmetric])
    from binary64_below [OF this] have ux: "binary64 x \<le> 2 powi (exponent x + 1)"
      by (simp only: two_powi_shift [symmetric])
    have "(2::real) powi (exponent x + 1) \<le> 2 powi exponent y"
      by (rule power_int_increasing) (use 2 in simp_all)
    with ux ly show ?thesis by linarith
  next
    case 3
    have "\<not> \<bar>x\<bar> \<le> \<bar>y\<bar>" using exponent_mono [of x y] 3 by auto
    with xy have x: "\<bar>x\<bar> = - x" and y: "- \<bar>y\<bar> \<le> y" by simp_all
    from 3 exponent_range [of y] have "- 1022 < exponent x" by simp
    from exponent_lower [OF this] x have "x \<le> of_int (- (2 ^ 52)) * 2 powi (exponent x - 52)"
      using two_powi_shift0 [of "exponent x"] by simp
    from binary64_below [OF this] have ux: "binary64 x \<le> - (2 powi exponent x)"
      using two_powi_shift0 [of "exponent x"] by simp
    from 3 exponent_range [of x] have "exponent y < 1023" by simp
    from exponent_upper [OF this] y have "of_int (- (2 ^ 53)) * 2 powi (exponent y - 52) \<le> y"
      using two_powi_shift [of "exponent y"] by simp
    from binary64_above [OF this] have ly: "- (2 powi (exponent y + 1)) \<le> binary64 y"
      using two_powi_shift [of "exponent y"] by simp
    have "(2::real) powi (exponent y + 1) \<le> 2 powi exponent x"
      by (rule power_int_increasing) (use 3 in simp_all)
    with ux ly show ?thesis by linarith
  qed
qed

lemma binary64_zero [simp]: "binary64 0 = 0"
  by (simp add: binary64_def round_to_def round_even_def)

lemma binary64_at:
  "2 powi e \<le> \<bar>x\<bar> \<Longrightarrow> \<bar>x\<bar> < 2 powi (e + 1) \<Longrightarrow> - 1022 \<le> e \<Longrightarrow> e \<le> 1023 \<Longrightarrow>
   binary64 x = round_to (e - 52) x"
  by (simp add: binary64_round_to exponent_eq)

lemma two_powi_split: "(2::real) powi (a + b) = 2 powi a * 2 powi b"
  by (rule power_int_add) simp

lemma binary64_grid_fixed:
  "x = of_int k * 2 powi (exponent x - 52) \<Longrightarrow> binary64 x = x"
  using round_to_grid [of "exponent x - 52" k] by (simp add: binary64_round_to)

lemma binary64_representable:
  assumes x: "x = of_int k * 2 powi j" and k: "\<bar>k\<bar> \<le> 2 ^ 53" and j: "- 1074 \<le> j"
  shows "binary64 x = x"
proof (cases "exponent x - 52 \<le> j")
  case True
  define d where "d = nat (j - (exponent x - 52))"
  have "j = int d + (exponent x - 52)" using True by (simp add: d_def)
  then have "(2::real) powi j = 2 powi (int d) * 2 powi (exponent x - 52)"
    by (simp only: two_powi_split)
  then have "x = of_int (k * 2 ^ d) * 2 powi (exponent x - 52)"
    by (simp add: x)
  then show ?thesis by (rule binary64_grid_fixed)
next
  case False
  with j have "- 1022 < exponent x" by simp
  from exponent_lower [OF this] have lo: "2 powi exponent x \<le> \<bar>x\<bar>" .
  have ax: "\<bar>x\<bar> = of_int \<bar>k\<bar> * 2 powi j" by (simp add: x abs_mult)
  have "of_int \<bar>k\<bar> * (2::real) powi j \<le> of_int (2 ^ 53) * 2 powi j"
    by (rule mult_right_mono) (use k in simp_all)
  also have "\<dots> = (2::real) powi (53 + j)" by (simp add: two_powi_split)
  finally have up: "\<bar>x\<bar> \<le> 2 powi (53 + j)" by (simp only: ax)
  have "exponent x \<le> 53 + j"
  proof (rule ccontr)
    assume "\<not> exponent x \<le> 53 + j"
    then have "53 + j < exponent x" by simp
    then have "(2::real) powi (53 + j) < 2 powi exponent x"
      by (rule power_int_strict_increasing) simp
    with lo up show False by simp
  qed
  with False have e: "exponent x = 53 + j" by simp
  with lo up have "\<bar>x\<bar> = 2 powi (53 + j)" by simp
  then have "of_int \<bar>k\<bar> * (2::real) powi j = of_int (2 ^ 53) * 2 powi j"
    by (simp add: ax two_powi_split)
  then have "\<bar>k\<bar> = 2 ^ 53" by simp
  then consider "k = 2 ^ 53" | "k = - (2 ^ 53)" by linarith
  then show ?thesis
  proof cases
    case 1
    have "x = of_int (2 ^ 52) * 2 powi (j + 1)"
      using two_powi_split [of 52 "j + 1"] two_powi_split [of 53 j] by (simp add: x 1)
    also have "j + 1 = exponent x - 52" by (simp add: e)
    finally show ?thesis by (rule binary64_grid_fixed)
  next
    case 2
    have "x = of_int (- (2 ^ 52)) * 2 powi (j + 1)"
      using two_powi_split [of 52 "j + 1"] two_powi_split [of 53 j] by (simp add: x 2)
    also have "j + 1 = exponent x - 52" by (simp add: e)
    finally show ?thesis by (rule binary64_grid_fixed)
  qed
qed

lemma binary64_of_int: "\<bar>k\<bar> \<le> 2 ^ 53 \<Longrightarrow> binary64 (of_int k) = of_int k"
  using binary64_representable [of "of_int k" k 0] by simp

lemma binary64_half: "\<bar>k\<bar> \<le> 2 ^ 53 \<Longrightarrow> binary64 (of_int k / 2) = of_int k / 2"
  using binary64_representable [of "of_int k / 2" k "- 1"] by (simp add: power_int_minus)

lemma binary64_idem [simp]: "binary64 (binary64 x) = binary64 x"
proof (cases "exponent x < 1023")
  case True
  define q where "q = exponent x - 52"
  define K where "K = round_even (x / 2 powi q)"
  have r: "binary64 x = of_int K * 2 powi q" by (simp add: binary64_def round_to_def q_def K_def Let_def)
  from exponent_upper [OF True] have "\<bar>x\<bar> < of_int (2 ^ 53) * 2 powi q"
    by (simp only: two_powi_shift q_def)
  then have "x / 2 powi q \<le> of_int (2 ^ 53)" "of_int (- (2 ^ 53)) \<le> x / 2 powi q"
    by (simp_all add: pos_divide_le_eq pos_le_divide_eq)
  then have "K \<le> 2 ^ 53" "- (2 ^ 53) \<le> K"
    using round_even_mono [of "x / 2 powi q" "of_int (2 ^ 53)"]
      round_even_mono [of "of_int (- (2 ^ 53))" "x / 2 powi q"]
    unfolding K_def round_even_of_int by simp_all
  then have "\<bar>K\<bar> \<le> 2 ^ 53" by simp
  moreover have "- 1074 \<le> q" using exponent_range [of x] by (simp add: q_def)
  ultimately show ?thesis using r by (intro binary64_representable)
next
  case False
  with exponent_range [of x] have e: "exponent x = 1023" by simp
  then have "- 1022 < exponent x" by simp
  from exponent_lower [OF this] have lo: "2 powi 1023 \<le> \<bar>x\<bar>" by (simp add: e)
  have "2 powi 1023 \<le> \<bar>binary64 x\<bar>"
  proof (cases "0 \<le> x")
    case True
    with lo have "of_int (2 ^ 52) * 2 powi (exponent x - 52) \<le> x"
      using two_powi_shift0 [of 1023] by (simp add: e)
    from binary64_above [OF this] show ?thesis
      using two_powi_shift0 [of 1023] by (simp add: e)
  next
    case False
    with lo have "x \<le> of_int (- (2 ^ 52)) * 2 powi (exponent x - 52)"
      using two_powi_shift0 [of 1023] by (simp add: e)
    from binary64_below [OF this] show ?thesis
      using two_powi_shift0 [of 1023] by (simp add: e)
  qed
  then have "1023 \<le> exponent (binary64 x)" by (rule exponent_ge) simp
  with exponent_range [of "binary64 x"] have "exponent (binary64 x) = exponent x" by (simp add: e)
  then have "binary64 x = of_int (round_even (x / 2 powi (exponent x - 52)))
                 * 2 powi (exponent (binary64 x) - 52)"
    by (simp add: binary64_def round_to_def Let_def)
  then show ?thesis by (rule binary64_grid_fixed)
qed

lemma binary64_error:
  assumes "\<bar>x\<bar> < 2 powi (j + 1)" and "- 1022 \<le> j"
  shows "\<bar>binary64 x - x\<bar> \<le> 2 powi (j - 53)"
proof -
  have "exponent x \<le> j" using assms by (rule exponent_le)
  then have "(2::real) powi (exponent x - 53) \<le> 2 powi (j - 53)"
    by (intro power_int_increasing) simp_all
  moreover have "(2::real) powi (exponent x - 52) / 2 = 2 powi (exponent x - 53)"
    using two_powi_split [of "exponent x - 53" 1] by simp
  ultimately show ?thesis
    using round_to_near [of "exponent x - 52" x] by (simp add: binary64_round_to)
qed

lemma binary64_on_grid:
  assumes "binary64 p = p" and "2 powi a \<le> \<bar>p\<bar>" and "\<bar>p\<bar> < 2 powi (a + 1)"
    and "- 1022 \<le> a" and "a \<le> 1023"
  shows "\<exists>K::int. p = of_int K * 2 powi (a - 52)"
proof -
  have "exponent p = a" using assms(2-5) by (rule exponent_eq)
  then have "binary64 p = of_int (round_even (p / 2 powi (a - 52))) * 2 powi (a - 52)"
    by (simp add: binary64_def round_to_def Let_def)
  with assms(1) show ?thesis by metis
qed

text \<open>
  An odd integer \<open>M\<close> of \<open>a + 1\<close> bits, with \<open>a\<close> from 1 to 52, is a double, and the
  doubles next to it are \<open>2 powi (a - 52)\<close> away.
\<close>

lemma double_gap:
  fixes M :: int and a :: nat
  assumes d: "binary64 p = p" and odd: "odd M" and lo: "2 ^ a \<le> \<bar>M\<bar>" and hi: "\<bar>M\<bar> < 2 ^ (a + 1)"
    and a1: "1 \<le> a" and a52: "a \<le> 52" and ne: "p \<noteq> of_int M"
  shows "2 powi (int a - 52) \<le> \<bar>of_int M - p\<bar>"
proof -
  let ?u = "(2::real) powi (int a - 52)"
  have u1: "?u \<le> 1"
    using power_int_increasing [of "int a - 52" 0 "2::real"] a52 by simp
  have ev: "even ((2::int) ^ a)" using a1 by simp
  have "odd \<bar>M\<bar>" using odd by simp
  have "\<bar>M\<bar> \<noteq> 2 ^ a"
  proof
    assume "\<bar>M\<bar> = 2 ^ a"
    with ev have "even \<bar>M\<bar>" by (simp only:)
    with \<open>odd \<bar>M\<bar>\<close> show False by simp
  qed
  with lo have lo': "2 ^ a + 1 \<le> \<bar>M\<bar>" by simp
  from hi have hi': "\<bar>M\<bar> + 1 \<le> 2 ^ (a + 1)" by simp
  from lo' have "(of_int (2 ^ a + 1) :: real) \<le> of_int \<bar>M\<bar>" by (simp only: of_int_le_iff)
  then have rlo: "(2::real) ^ a + 1 \<le> \<bar>of_int M\<bar>" by simp
  from hi' have "(of_int (\<bar>M\<bar> + 1) :: real) \<le> of_int (2 ^ (a + 1))" by (simp only: of_int_le_iff)
  then have rhi: "\<bar>of_int M :: real\<bar> + 1 \<le> 2 ^ (a + 1)" by simp
  consider "\<bar>p\<bar> < 2 ^ a" | "2 ^ (a + 1) \<le> \<bar>p\<bar>" | "2 ^ a \<le> \<bar>p\<bar>" "\<bar>p\<bar> < 2 ^ (a + 1)"
    by linarith
  then show ?thesis
  proof cases
    case 1
    with rlo have "1 \<le> \<bar>of_int M - p\<bar>" by linarith
    with u1 show ?thesis by linarith
  next
    case 2
    with rhi have "1 \<le> \<bar>of_int M - p\<bar>" by linarith
    with u1 show ?thesis by linarith
  next
    case 3
    have "2 powi (int a) \<le> \<bar>p\<bar>" "\<bar>p\<bar> < 2 powi (int a + 1)"
      using 3 by (simp_all add: power_int_add)
    from binary64_on_grid [OF d this] a52 obtain K :: int where K: "p = of_int K * ?u"
      by auto
    have z: "int (52 - a) + (int a - 52) = 0" using a52 by simp
    have "2 ^ (52 - a) * ?u = 2 powi (int (52 - a)) * ?u" by (simp only: power_int_of_nat)
    also have "\<dots> = 2 powi (int (52 - a) + (int a - 52))" by (rule two_powi_split [symmetric])
    also have "\<dots> = 1" by (simp only: z power_int_0_right)
    finally have one: "2 ^ (52 - a) * ?u = 1" .
    have "of_int M = of_int M * (2 ^ (52 - a) * ?u)" by (simp only: one mult_1_right)
    then have M: "of_int M = of_int (M * 2 ^ (52 - a)) * ?u" by simp
    define D where "D = M * 2 ^ (52 - a) - K"
    have diff: "of_int M - p = of_int D * ?u"
      unfolding D_def of_int_diff left_diff_distrib M [symmetric] K [symmetric] ..
    have "D \<noteq> 0" using ne diff by auto
    then have "1 \<le> \<bar>D\<bar>" by simp
    then have "(of_int 1 :: real) \<le> of_int \<bar>D\<bar>" by (simp only: of_int_le_iff)
    then have "(1::real) \<le> \<bar>of_int D\<bar>" by simp
    then have "1 * ?u \<le> \<bar>of_int D\<bar> * ?u" by (rule mult_right_mono) simp
    then show ?thesis by (simp add: diff abs_mult)
  qed
qed

text \<open>
  \<open>Math.round(p / 10)\<close> for a double \<open>p\<close> of magnitude \<open>2 ^ 52\<close> at most. The quotient is
  rounded to a double before \<open>Math.round\<close> reads it. That rounding never reaches a
  half-integer \<open>n + 1 / 2\<close> from below: ten times the half-integer is an odd integer
  \<open>M\<close>, the double \<open>p\<close> is a whole gap away from \<open>M\<close>, so \<open>p / 10\<close> is a tenth of a gap
  away from \<open>n + 1 / 2\<close>, and the rounding of \<open>p / 10\<close>, three binades below, moves it
  by a sixteenth of that gap at most. So \<open>Math.round\<close> returns what it returns on the
  exact quotient, and the product with 10 is an integer below \<open>2 ^ 53\<close>, hence exact.
\<close>

lemma gap_error_clash: "16 * v \<le> 10 * x \<Longrightarrow> 0 < v \<Longrightarrow> \<bar>x\<bar> \<le> v \<Longrightarrow> False" for v x :: real
  by linarith

lemma edge_clash: "h \<le> - w \<Longrightarrow> 0 < w \<Longrightarrow> \<bar>10 * h\<bar> < 8 * w \<Longrightarrow> False" for h w :: real
  by linarith

lemma round_tenth:
  assumes d: "binary64 p = p" and b: "\<bar>p\<bar> \<le> 2 ^ 52"
  shows "Math_round (binary64 (p / 10)) = of_int \<lfloor>p / 10 + 1 / 2\<rfloor>"
proof -
  define q where "q = p / 10"
  define n where "n = \<lfloor>q + 1 / 2\<rfloor>"
  have n1: "of_int n \<le> q + 1 / 2" and n2: "q + 1 / 2 < of_int n + 1"
    unfolding n_def by linarith+
  have p: "p = 10 * q" by (simp add: q_def)
  have odd_bound: "\<bar>of_int (2 * n + 1) :: real\<bar> \<le> 2 ^ 53" "\<bar>of_int (2 * n - 1) :: real\<bar> \<le> 2 ^ 53"
    using n1 n2 b unfolding p by (simp_all add: abs_le_iff)
  have r1: "\<bar>2 * n + 1\<bar> \<le> 2 ^ 53"
  proof -
    from odd_bound(1) have "(of_int \<bar>2 * n + 1\<bar> :: real) \<le> of_int (2 ^ 53)" by simp
    then show ?thesis by (simp only: of_int_le_iff)
  qed
  have r2: "\<bar>2 * n - 1\<bar> \<le> 2 ^ 53"
  proof -
    from odd_bound(2) have "(of_int \<bar>2 * n - 1\<bar> :: real) \<le> of_int (2 ^ 53)" by simp
    then show ?thesis by (simp only: of_int_le_iff)
  qed
  have h1: "of_int (2 * n + 1) / 2 = (of_int n + 1 / 2 :: real)"
    and h2: "of_int (2 * n - 1) / 2 = (of_int n - 1 / 2 :: real)" by simp_all
  have f1: "binary64 (of_int n + 1 / 2) = of_int n + 1 / 2"
    using binary64_half [OF r1] by (simp only: h1)
  have f2: "binary64 (of_int n - 1 / 2) = of_int n - 1 / 2"
    using binary64_half [OF r2] by (simp only: h2)
  have "binary64 (of_int n - 1 / 2) \<le> binary64 q"
    by (rule binary64_mono) (use n1 in simp)
  then have lower: "of_int n - 1 / 2 \<le> binary64 q" by (simp only: f2)
  have "binary64 q \<le> binary64 (of_int n + 1 / 2)"
    by (rule binary64_mono) (use n2 in simp)
  then have upper: "binary64 q \<le> of_int n + 1 / 2" by (simp only: f1)
  have strict: "binary64 q \<noteq> of_int n + 1 / 2"
  proof
    assume eq: "binary64 q = of_int n + 1 / 2"
    define M where "M = 10 * n + 5"
    have oddM: "odd M" by (simp add: M_def)
    have Mq: "of_int M - p = 10 * (of_int n + 1 / 2 - q)" by (simp add: M_def p)
    have pos: "0 < of_int M - p" using n2 by (simp add: Mq)
    then have ne: "p \<noteq> of_int M" by auto
    have "M \<noteq> 0" using oddM by auto
    have M5: "5 \<le> \<bar>M\<bar>" unfolding M_def by presburger
    have Mr: "\<bar>of_int M :: real\<bar> < 2 ^ 53"
      using n1 n2 b unfolding p M_def by (simp add: abs_less_iff abs_le_iff)
    have Mi: "\<bar>M\<bar> < 2 ^ 53"
    proof -
      from Mr have "(of_int \<bar>M\<bar> :: real) < of_int (2 ^ 53)" by simp
      then show ?thesis by (simp only: of_int_less_iff)
    qed
    have "1 \<le> nat \<bar>M\<bar>" using M5 by simp
    from ex_power_ivl1 [OF order_refl this] obtain a :: nat
      where a: "2 ^ a \<le> nat \<bar>M\<bar>" "nat \<bar>M\<bar> < 2 ^ (a + 1)" by auto
    have lo: "2 ^ a \<le> \<bar>M\<bar>"
    proof -
      from a(1) have "int (2 ^ a) \<le> int (nat \<bar>M\<bar>)" by (simp only: of_nat_le_iff)
      then show ?thesis by simp
    qed
    have hi: "\<bar>M\<bar> < 2 ^ (a + 1)"
    proof -
      from a(2) have "int (nat \<bar>M\<bar>) < int (2 ^ (a + 1))" by (simp only: of_nat_less_iff)
      then show ?thesis by simp
    qed
    have a52: "a \<le> 52"
    proof (rule ccontr)
      assume "\<not> a \<le> 52"
      then have "53 \<le> a" by simp
      then have "(2::int) ^ 53 \<le> 2 ^ a" by (rule power_increasing) simp
      with lo Mi show False by simp
    qed
    have a2: "2 \<le> a"
    proof (rule ccontr)
      assume "\<not> 2 \<le> a"
      then have "a + 1 \<le> 2" by simp
      then have "(2::int) ^ (a + 1) \<le> 2 ^ 2" by (rule power_increasing) simp
      with hi M5 show False by simp
    qed
    then have a1: "1 \<le> a" by simp
    from double_gap [OF d oddM lo hi a1 a52 ne] pos
    have gap: "2 powi (int a - 52) \<le> 10 * (of_int n + 1 / 2 - q)" by (simp add: Mq)
    have U: "(2::real) powi (int a - 52) = 16 * 2 powi (int a - 56)"
      using two_powi_split [of 4 "int a - 56"] by simp
    have vpos: "(0::real) < 2 powi (int a - 56)" by simp
    have W: "(2::real) ^ (a + 1) = 8 * 2 powi (int a - 2)"
    proof -
      have "(2::real) ^ (a + 1) = 2 powi (int (a + 1))" by (simp only: power_int_of_nat)
      also have "int (a + 1) = 3 + (int a - 2)" by simp
      also have "(2::real) powi (3 + (int a - 2)) = 2 powi 3 * 2 powi (int a - 2)"
        by (rule two_powi_split)
      finally show ?thesis by simp
    qed
    have "(of_int \<bar>M\<bar> :: real) < of_int (2 ^ (a + 1))" using hi by (simp only: of_int_less_iff)
    then have "\<bar>of_int M :: real\<bar> < 2 ^ (a + 1)"
      by (simp only: of_int_abs of_int_power of_int_numeral)
    then have Mw: "\<bar>of_int M :: real\<bar> < 8 * 2 powi (int a - 2)" by (simp only: W)
    have Mh: "of_int M = 10 * (of_int n + 1 / 2 :: real)" by (simp add: M_def)
    show False
    proof (cases "\<bar>q\<bar> < 2 powi (int a - 2)")
      case True
      then have "\<bar>q\<bar> < 2 powi (int a - 3 + 1)" by simp
      from binary64_error [OF this] a2 have "\<bar>binary64 q - q\<bar> \<le> 2 powi (int a - 56)" by simp
      then have "\<bar>of_int n + 1 / 2 - q\<bar> \<le> 2 powi (int a - 56)" by (simp only: eq)
      with gap [unfolded U] vpos show False by (rule gap_error_clash)
    next
      case False
      have "q < 2 powi (int a - 2)" using Mw n2 unfolding Mh by (simp add: abs_less_iff)
      with False have "q \<le> of_int (- 1) * 2 powi (int a - 2)" by simp
      then have "binary64 q \<le> binary64 (of_int (- 1) * 2 powi (int a - 2))"
        by (rule binary64_mono)
      also have "\<dots> = of_int (- 1) * 2 powi (int a - 2)"
        by (rule binary64_representable [OF refl]) simp_all
      finally have "binary64 q \<le> - (2 powi (int a - 2))" by simp
      then have "of_int n + 1 / 2 \<le> - ((2::real) powi (int a - 2))" by (simp only: eq)
      moreover have "(0::real) < 2 powi (int a - 2)" by simp
      ultimately show False using Mw [unfolded Mh] by (rule edge_clash)
    qed
  qed
  from lower upper strict have "\<lfloor>binary64 q + 1 / 2\<rfloor> = n"
    by (intro floor_unique) simp_all
  then show ?thesis by (simp add: Math_round_def q_def n_def)
qed

lemma times_ten_exact:
  assumes b: "\<bar>p :: real\<bar> \<le> 2 ^ 52"
  shows "binary64 (of_int \<lfloor>p / 10 + 1 / 2\<rfloor> * 10) = of_int \<lfloor>p / 10 + 1 / 2\<rfloor> * 10"
proof -
  define n where "n = \<lfloor>p / 10 + 1 / 2\<rfloor>"
  have n1: "of_int n \<le> p / 10 + 1 / 2" and n2: "p / 10 + 1 / 2 < of_int n + 1"
    unfolding n_def by linarith+
  have "\<bar>of_int (n * 10) :: real\<bar> \<le> 2 ^ 53"
    using n1 n2 b unfolding abs_le_iff by simp
  then have "(of_int \<bar>n * 10\<bar> :: real) \<le> of_int (2 ^ 53)" by simp
  then have "\<bar>n * 10\<bar> \<le> 2 ^ 53" by (simp only: of_int_le_iff)
  from binary64_of_int [OF this] show ?thesis by (simp add: n_def)
qed

subsection \<open>The doubles of the examples\<close>

text \<open>
  Integers and halves up to \<open>2 ^ 53\<close> are doubles. The other values of the examples are
  rounded at the exponent given to \<open>binary64_at\<close>.
\<close>

lemma binary64_numeral [simp]:
  "numeral w \<le> (2::int) ^ 53 \<Longrightarrow> binary64 (numeral w) = numeral w"
  using binary64_of_int [of "numeral w"] by simp

lemma binary64_neg_numeral [simp]:
  "numeral w \<le> (2::int) ^ 53 \<Longrightarrow> binary64 (- numeral w) = - numeral w"
  using binary64_of_int [of "- numeral w"] by simp

lemma binary64_numeral_half [simp]:
  "numeral w \<le> (2::int) ^ 53 \<Longrightarrow> binary64 (numeral w / 2) = numeral w / 2"
  using binary64_half [of "numeral w"] by simp

lemma binary64_one [simp]: "binary64 1 = 1"
  using binary64_of_int [of 1] by simp

lemma b_6_5: "binary64 (6 / 5) = 5404319552844595 / 4503599627370496"
  using binary64_at [of 0 "6 / 5"] by (simp add: round_to_def round_even_def Let_def)

lemma b_3_5: "binary64 (3 / 5) = 5404319552844595 / 9007199254740992"
  using binary64_at [of "- 1" "3 / 5"] by (simp add: round_to_def round_even_def Let_def)

lemma b_660: "binary64 (1486187877032263625 / 2251799813685248) = 660"
  using binary64_at [of 9 "1486187877032263625 / 2251799813685248"]
  by (simp add: round_to_def round_even_def Let_def)

lemma b_1440: "binary64 (405323966463344625 / 281474976710656) = 1440"
  using binary64_at [of 10 "405323966463344625 / 281474976710656"]
  by (simp add: round_to_def round_even_def Let_def)

lemma b_1170: "binary64 (5269211564023480125 / 4503599627370496) = 1170"
  using binary64_at [of 10 "5269211564023480125 / 4503599627370496"]
  by (simp add: round_to_def round_even_def Let_def)

lemma b_big1: "binary64 225179981368524850 = 225179981368524864"
  using binary64_at [of 57 "225179981368524850"]
  by (simp add: round_to_def round_even_def Let_def)

lemma b_big2: "binary64 225179981368525164 = 225179981368525152"
  using binary64_at [of 57 "225179981368525164"]
  by (simp add: round_to_def round_even_def Let_def)

lemma b_big3: "binary64 (112589990684262576 / 5) = 22517998136852516"
  using binary64_at [of 54 "112589990684262576 / 5"]
  by (simp add: round_to_def round_even_def Let_def)

lemma b_big4: "binary64 225179981368525160 = 225179981368525152"
  using binary64_at [of 57 "225179981368525160"]
  by (simp add: round_to_def round_even_def Let_def)

lemma b_30: "binary64 (135107988821114875 / 4503599627370496) = 30"
  using binary64_at [of 4 "135107988821114875 / 4503599627370496"]
  by (simp add: round_to_def round_even_def Let_def)

lemma b_323: "binary64 (323 / 10) = 2272910436938547 / 70368744177664"
  using binary64_at [of 5 "323 / 10"] by (simp add: round_to_def round_even_def Let_def)

lemma b_1615: "binary64 (56822760923463675 / 35184372088832) = 7102845115432959 / 4398046511104"
  using binary64_at [of 10 "56822760923463675 / 35184372088832"]
  by (simp add: round_to_def round_even_def Let_def)

lemma b_1915: "binary64 (8422259068764159 / 4398046511104) = 8422259068764159 / 4398046511104"
  using binary64_at [of 10 "8422259068764159 / 4398046511104"]
  by (simp add: round_to_def round_even_def Let_def)

lemma b_191: "binary64 (8422259068764159 / 43980465111040) = 6737807255011327 / 35184372088832"
  using binary64_at [of 7 "8422259068764159 / 43980465111040"]
  by (simp add: round_to_def round_even_def Let_def)

section \<open>Properties of the pricing utilities\<close>


lemma night_code_spec:
  "getHours t < 24 \<Longrightarrow> is_night t = (getHours t \<ge> 22 \<or> getHours t < 6)"
  by (auto simp: is_night_def)

lemma fare_before_clamp_double: "binary64 (fare_before_clamp d t c) = fare_before_clamp d t c"
  by (simp add: fare_before_clamp_def js_mul_def)

lemma calculatePrice_fare:
  "calculatePrice d t c =
     js_mul (Math_round (js_div (max (fare_before_clamp d t c) (parseFloat (minimum_price c))) 10)) 10"
  by (simp add: calculatePrice_def fare_before_clamp_def Let_def js_mul_def js_add_def)

lemma clamped_price_fare:
  "getHours t < 24 \<Longrightarrow>
   clamped_price d t c = max (fare_before_clamp d t c) (parseFloat (minimum_price c))"
  by (simp add: clamped_price_def fare_before_clamp_def night_code_spec is_weekend_def
      Saturday_def Sunday_def disj_commute Let_def js_mul_def js_add_def)

lemma clamped_price_double:
  "getHours t < 24 \<Longrightarrow> binary64 (clamped_price d t c) = clamped_price d t c"
  by (simp add: clamped_price_fare max_def fare_before_clamp_double parseFloat_def)

lemma default_parsed:
  "parseFloat (base_price defaultConfig) = 300"
  "parseFloat (price_per_km defaultConfig) = 50"
  "parseFloat (night_multiplier defaultConfig) = 3 / 2"
  "parseFloat (weekend_multiplier defaultConfig) = 5404319552844595 / 4503599627370496"
  "parseFloat (minimum_price defaultConfig) = 400"
  by (simp_all add: defaultConfig_def parseFloat_def b_6_5)

lemma price_tue_20: "calculatePrice 5 tue_20 defaultConfig = 550"
  by (simp add: calculatePrice_def default_parsed tue_20_def Math_round_def Let_def
      js_add_def js_mul_def js_div_def)

lemma price_tue_23: "calculatePrice 5 tue_23 defaultConfig = 830"
  by (simp add: calculatePrice_def default_parsed tue_23_def Math_round_def Let_def
      js_add_def js_mul_def js_div_def)

lemma price_sat_14: "calculatePrice 5 sat_14 defaultConfig = 660"
  by (simp add: calculatePrice_def default_parsed sat_14_def Math_round_def Let_def
      js_add_def js_mul_def js_div_def b_660)

lemma price_sun_01: "calculatePrice 10 sun_01 defaultConfig = 1440"
  by (simp add: calculatePrice_def default_parsed sun_01_def Math_round_def Let_def
      js_add_def js_mul_def js_div_def b_1440)


lemma price_six_tenths: "calculatePrice six_tenths tue_23 defaultConfig = 500"
  by (simp add: calculatePrice_def default_parsed tue_23_def Math_round_def Let_def
      js_add_def js_mul_def js_div_def six_tenths_def b_3_5 b_30)

lemma exact_six_tenths: "estimate_exact six_tenths tue_23 defaultConfig = 490"
  by (simp add: estimate_exact_def defaultConfig_def tue_23_def is_night_def is_weekend_def
      Saturday_def Sunday_def nearest_ten_def Let_def six_tenths_def b_3_5)

text \<open>
  For the double nearest to 32.3 km on Tuesday 20:00 the product with 50 is the double
  below 1615 and the code returns 1910; the fare of 32.3 km in exact arithmetic is 1920.
\<close>

lemma price_32_3: "calculatePrice (binary64 (323 / 10)) tue_20 defaultConfig = 1910"
  by (simp add: calculatePrice_def default_parsed tue_20_def Math_round_def Let_def
      js_add_def js_mul_def js_div_def b_323 b_1615 b_1915 b_191)

lemma exact_32_3: "estimate_exact (323 / 10) tue_20 defaultConfig = 1920"
  by (simp add: estimate_exact_def defaultConfig_def tue_20_def is_night_def is_weekend_def
      Saturday_def Sunday_def nearest_ten_def Let_def)

lemma price_far: "calculatePrice 4503599627370497 tue_20 defaultConfig = 225179981368525152"
  by (simp add: calculatePrice_def default_parsed tue_20_def Math_round_def Let_def
      js_add_def js_mul_def js_div_def b_big1 b_big2 b_big3 b_big4)

text \<open>
  C5, as stated, fails at two of its four examples: for 5 km on Tuesday 23:00 the code
  returns 830 (550 times 1.5 is 825, and 82.5 rounds up to 83), not 825; for 10 km on
  Sunday 01:00 it returns 1440 (800 times 1.5 times 1.2), not 1980. Its formula does not
  hold in exact arithmetic either: for the double nearest to 0.6 km on Tuesday 23:00 the
  code returns 500 (the product with 50 rounds to 30, and 49.5 rounds up to 50), where
  the exact fare, just below 495, rounds to 490. And the result is not always a multiple
  of 10: for \<open>2 ^ 52 + 1\<close> km on Tuesday 20:00 the code returns 225179981368525152.
\<close>

theorem calculatePrice_examples_counterexample:
  "calculatePrice 5 tue_23 defaultConfig \<noteq> 825 \<and> calculatePrice 10 sun_01 defaultConfig \<noteq> 1980
   \<and> calculatePrice six_tenths tue_23 defaultConfig = 500
   \<and> estimate_exact six_tenths tue_23 defaultConfig = 490
   \<and> calculatePrice 4503599627370497 tue_20 defaultConfig = of_int 225179981368525152
   \<and> (225179981368525152 :: int) mod 10 = 2"
  by (simp add: price_tue_23 price_sun_01 price_six_tenths exact_six_tenths price_far)

text \<open>
  C5, amended. For a non-negative distance, a time of day and a pricing row,
  \<open>calculatePrice\<close> computes in double arithmetic the fare of the specification: base
  plus distance times the rate, times the night multiplier in the night window, then
  times the weekend multiplier on Saturday and Sunday, clamped below by the minimum
  fare; when that clamped price is at most \<open>2 ^ 52\<close> in magnitude, the result is the
  multiple of 10 nearest to it, a tie going to the larger one (a multiple of 10 at most
  5 away from the clamped price). With the default row it yields 550 for
  (5 km, Tuesday 20:00), 830 for (5 km, Tuesday 23:00), 660 for (5 km, Saturday 14:00)
  and 1440 for (10 km, Sunday 01:00).
\<close>

theorem calculatePrice_estimate:
  assumes "0 \<le> d" and "valid_date t" and "\<bar>clamped_price d t c\<bar> \<le> 2 ^ 52"
  shows "calculatePrice d t c = estimate_spec d t c
       \<and> (\<exists>k::int. calculatePrice d t c = 10 * of_int k)
       \<and> \<bar>calculatePrice d t c - clamped_price d t c\<bar> \<le> 5
       \<and> calculatePrice 5 tue_20 defaultConfig = 550
       \<and> calculatePrice 5 tue_23 defaultConfig = 830
       \<and> calculatePrice 5 sat_14 defaultConfig = 660
       \<and> calculatePrice 10 sun_01 defaultConfig = 1440"
proof -
  let ?p = "clamped_price d t c"
  have h: "getHours t < 24" using assms(2) by (simp add: valid_date_def)
  have "calculatePrice d t c = js_mul (Math_round (js_div ?p 10)) 10"
    by (simp only: calculatePrice_fare clamped_price_fare [OF h])
  also have "\<dots> = binary64 (of_int \<lfloor>?p / 10 + 1 / 2\<rfloor> * 10)"
    by (simp only: js_mul_def js_div_def round_tenth [OF clamped_price_double [OF h] assms(3)])
  also have "\<dots> = of_int \<lfloor>?p / 10 + 1 / 2\<rfloor> * 10"
    by (rule times_ten_exact [OF assms(3)])
  finally have cp: "calculatePrice d t c = of_int \<lfloor>?p / 10 + 1 / 2\<rfloor> * 10" .
  have a: "calculatePrice d t c = estimate_spec d t c"
    by (simp add: cp estimate_spec_def nearest_ten_def)
  have b: "\<exists>k::int. calculatePrice d t c = 10 * of_int k"
    by (rule exI [of _ "\<lfloor>?p / 10 + 1 / 2\<rfloor>"]) (simp add: cp)
  have "of_int \<lfloor>?p / 10 + 1 / 2\<rfloor> \<le> ?p / 10 + 1 / 2"
    "?p / 10 + 1 / 2 < of_int \<lfloor>?p / 10 + 1 / 2\<rfloor> + 1" by linarith+
  then have c: "\<bar>calculatePrice d t c - ?p\<bar> \<le> 5"
    unfolding cp abs_le_iff by linarith
  from a b c price_tue_20 price_tue_23 price_sat_14 price_sun_01 show ?thesis by blast
qed

theorem calculatePrice_estimate_witness:
  "calculatePrice 7 \<lparr>getHours = 23, getDay = 6\<rparr> defaultConfig = 1170
   \<and> clamped_price 7 \<lparr>getHours = 23, getDay = 6\<rparr> defaultConfig = 1170
   \<and> estimate_spec 7 \<lparr>getHours = 23, getDay = 6\<rparr> defaultConfig = 1170"
proof -
  have h1: "(0::real) \<le> 7" by simp
  have h2: "valid_date \<lparr>getHours = 23, getDay = 6\<rparr>" by (simp add: valid_date_def)
  have cl: "clamped_price 7 \<lparr>getHours = 23, getDay = 6\<rparr> defaultConfig = 1170"
    by (simp add: clamped_price_def default_parsed is_night_def is_weekend_def Saturday_def
        Let_def js_add_def js_mul_def b_1170)
  have h3: "\<bar>clamped_price 7 \<lparr>getHours = 23, getDay = 6\<rparr> defaultConfig\<bar> \<le> 2 ^ 52"
    by (simp add: cl)
  have v: "calculatePrice 7 \<lparr>getHours = 23, getDay = 6\<rparr> defaultConfig = 1170"
    by (simp add: calculatePrice_def default_parsed Math_round_def Let_def
        js_add_def js_mul_def js_div_def b_1170)
  from calculatePrice_estimate [OF h1 h2 h3] v cl show ?thesis by simp
qed




section \<open>Properties of the trip routes\<close>

lemma ball_map_if:
  "(\<forall>y\<in>set (map (\<lambda>x. if c x then f x else x) xs). P y) =
     (\<forall>x\<in>set xs. (c x \<longrightarrow> P (f x)) \<and> (\<not> c x \<longrightarrow> P x))"
  by (induction xs) auto

text \<open>
  C10. A request whose pickup or dropoff has latitude 0 or longitude 0 is rejected as an
  invalid location, and the store is left as it was: the check tests the coordinates
  for truthiness, and the number 0 is falsy.
\<close>

theorem request_trip_zero_coordinate:
  assumes "opt_get pickup latitude = Some 0 \<or> opt_get pickup longitude = Some 0 \<or>
           opt_get dropoff latitude = Some 0 \<or> opt_get dropoff longitude = Some 0"
  shows "request_trip E now client pickup dropoff s = (Inl invalid_location, s)"
  using assms by (auto simp: request_trip_def js_not_def)

text \<open>A pickup on the equator, with coordinates that \<open>validateCoordinates\<close> accepts.\<close>

theorem request_trip_zero_coordinate_witness:
  "validateCoordinates 0 (3707 / 100) \<and> validateCoordinates (- 1292066 / 1000000) (36821945 / 1000000)
   \<and> request_trip env_strict 0 1 (Some nanyuki) (Some kilimani) store0 = (Inl invalid_location, store0)"
proof -
  have h: "opt_get (Some nanyuki) latitude = Some 0" by (simp add: opt_get_def nanyuki_def)
  have v: "validateCoordinates 0 (3707 / 100)" "validateCoordinates (- 1292066 / 1000000) (36821945 / 1000000)"
    by (simp_all add: validateCoordinates_def)
  from request_trip_zero_coordinate [of "Some nanyuki" "Some kilimani" env_strict 0 1 store0] h v
  show ?thesis by simp
qed

lemma store0_sel:
  "users store0 = [amina, baraka, chege]"
  "driver_profiles store0 = [baraka_profile, chege_profile]"
  "trips store0 = []"
  "pricing_configs store0 = [defaultConfig]"
  "trip_locations store0 = []"
  "audit_logs store0 = []"
  "outbox store0 = []"
  "uuid_seq store0 = 7"
  by (simp_all add: store0_def)

lemma active_pricing_store0: "active_pricing store0 = Some defaultConfig"
  by (simp add: active_pricing_def store0_def defaultConfig_def)

text \<open>
  C8 at two failing inputs. A pickup in Mombasa has coordinates in range and lies
  outside the bounds of \<open>isWithinServiceArea\<close>: the handler, which calls neither that
  function nor \<open>validateCoordinates\<close>, creates the trip. A pickup at latitude 95 and
  longitude 200 is outside the ranges of \<open>validateCoordinates\<close>: the handler does
  not answer with its validation error and goes on to the INSERT.
\<close>

theorem request_trip_unchecked_location:
  "validateCoordinates (- 40435 / 10000) (396682 / 10000)
   \<and> \<not> isWithinServiceArea (- 40435 / 10000) (396682 / 10000)
   \<and> (\<exists>r s'. request_trip env_strict 0 1 (Some mombasa) (Some kilimani) store0 = (Inr r, s')
        \<and> map status (trips s') = [pending]
        \<and> map pickup_location (trips s') = [\<lparr>st_x = 396682 / 10000, st_y = - 40435 / 10000\<rparr>])
   \<and> \<not> validateCoordinates 95 200
   \<and> fst (request_trip env_strict 0 1 (Some beyond_pole) (Some kilimani) store0) \<noteq> Inl invalid_location"
  by (simp add: validateCoordinates_def isWithinServiceArea_def request_trip_def js_not_def
      opt_get_def mombasa_def beyond_pole_def kilimani_def request_checked_def
      active_pricing_store0 Let_def store0_sel amina_def)

lemma store_done_sel:
  "users store_done = [amina, baraka, chege]"
  "driver_profiles store_done = [baraka_profile, chege_profile]"
  "trips store_done = [finished_trip]"
  "audit_logs store_done = []"
  "outbox store_done = []"
  by (simp_all add: store_done_def store0_def)

lemma trigger_sos_fst:
  "user \<in> set (map u_id (users s)) \<Longrightarrow>
   fst (trigger_sos E now tid user s) =
     Inr \<lparr>sos_message = ''Emergency alert sent to support team'', support_number = SUPPORT_PHONE E\<rparr>"
  by (simp add: trigger_sos_def Let_def)

lemma trigger_sos_trips:
  "trips (snd (trigger_sos E now tid user s)) =
     map (\<lambda>t. if trip_id t = tid then t\<lparr>sos_triggered := True, sos_triggered_at := Some now\<rparr> else t)
         (trips s)"
  by (simp add: trigger_sos_def Let_def)

lemma trigger_sos_audit:
  "user \<in> set (map u_id (users s)) \<Longrightarrow>
   audit_logs (snd (trigger_sos E now tid user s)) =
     audit_logs s @ [\<lparr>al_user_id = user, action = ''sos_triggered'', entity_type = ''trip'',
                      entity_id = tid, al_created_at = now\<rparr>]"
  by (simp add: trigger_sos_def Let_def)

lemma trigger_sos_outbox:
  "outbox (snd (trigger_sos E now tid user s)) = outbox s @ [SocketEmit admin_room ''sos_alert'' tid]"
  by (simp add: trigger_sos_def Let_def)

text \<open>
  C7. For an existing trip, whatever its status, the SOS call of a caller who is a row
  of \<open>users\<close> (the authenticated user) answers with success and the support number,
  raises the emergency flag of the trip, leaves every status and driver reference as it
  was, and records exactly one new emergency event (one \<open>sos_triggered\<close> audit row,
  and one \<open>sos_alert\<close> to the admin room).
\<close>

theorem trigger_sos_acknowledged:
  assumes "t \<in> set (trips s)" and "trip_id t = tid"
    and "user \<in> set (map u_id (users s))"
  shows "fst (trigger_sos E now tid user s) =
           Inr \<lparr>sos_message = ''Emergency alert sent to support team'',
                support_number = SUPPORT_PHONE E\<rparr>
       \<and> t\<lparr>sos_triggered := True, sos_triggered_at := Some now\<rparr>
            \<in> set (trips (snd (trigger_sos E now tid user s)))
       \<and> (\<forall>t' \<in> set (trips (snd (trigger_sos E now tid user s))). trip_id t' = tid \<longrightarrow> sos_triggered t')
       \<and> map status (trips (snd (trigger_sos E now tid user s))) = map status (trips s)
       \<and> map driver_id (trips (snd (trigger_sos E now tid user s))) = map driver_id (trips s)
       \<and> length (emergency_events (snd (trigger_sos E now tid user s)) tid)
            = Suc (length (emergency_events s tid))
       \<and> length (audit_logs (snd (trigger_sos E now tid user s))) = Suc (length (audit_logs s))
       \<and> outbox (snd (trigger_sos E now tid user s))
            = outbox s @ [SocketEmit admin_room ''sos_alert'' tid]"
proof -
  let ?s' = "snd (trigger_sos E now tid user s)"
  have a: "t\<lparr>sos_triggered := True, sos_triggered_at := Some now\<rparr> \<in> set (trips ?s')"
  proof -
    let ?f = "\<lambda>t. if trip_id t = tid then t\<lparr>sos_triggered := True, sos_triggered_at := Some now\<rparr> else t"
    have "?f t \<in> ?f ` set (trips s)" using assms(1) by (rule imageI)
    then show ?thesis using assms(2) by (simp add: trigger_sos_trips)
  qed
  have b: "\<forall>t' \<in> set (trips ?s'). trip_id t' = tid \<longrightarrow> sos_triggered t'"
    unfolding trigger_sos_trips ball_map_if by simp
  have c: "map status (trips ?s') = map status (trips s)"
    unfolding trigger_sos_trips map_map by (rule map_cong) simp_all
  have d: "map driver_id (trips ?s') = map driver_id (trips s)"
    unfolding trigger_sos_trips map_map by (rule map_cong) simp_all
  have e: "length (emergency_events ?s' tid) = Suc (length (emergency_events s tid))"
    by (simp add: emergency_events_def trigger_sos_audit [OF assms(3)])
  have f: "length (audit_logs ?s') = Suc (length (audit_logs s))"
    by (simp add: trigger_sos_audit [OF assms(3)])
  show ?thesis
    by (intro conjI a b c d e f trigger_sos_fst [OF assms(3)] trigger_sos_outbox)
qed

text \<open>The call of the client on a completed trip.\<close>

theorem trigger_sos_acknowledged_witness:
  "finished_trip \<in> set (trips store_done) \<and> status finished_trip = completed
   \<and> 1 \<in> set (map u_id (users store_done))
   \<and> fst (trigger_sos env_strict 9 5 1 store_done) =
       Inr \<lparr>sos_message = ''Emergency alert sent to support team'', support_number = ''+254700000000''\<rparr>
   \<and> map sos_triggered (trips (snd (trigger_sos env_strict 9 5 1 store_done))) = [True]
   \<and> map status (trips (snd (trigger_sos env_strict 9 5 1 store_done))) = [completed]
   \<and> length (emergency_events (snd (trigger_sos env_strict 9 5 1 store_done)) 5) = 1"
proof -
  have h1: "finished_trip \<in> set (trips store_done)" by (simp add: store_done_sel)
  have h2: "trip_id finished_trip = 5" by (simp add: finished_trip_def)
  have h3: "1 \<in> set (map u_id (users store_done))" by (simp add: store_done_sel amina_def)
  have st: "status finished_trip = completed" by (simp add: finished_trip_def)
  have ev: "emergency_events store_done 5 = []" by (simp add: emergency_events_def store_done_sel)
  have ph: "SUPPORT_PHONE env_strict = ''+254700000000''" by (simp add: env_strict_def)
  have fl: "map sos_triggered (trips (snd (trigger_sos env_strict 9 5 1 store_done))) = [True]"
    by (simp add: trigger_sos_trips store_done_sel h2)
  from trigger_sos_acknowledged [OF h1 h2 h3, of env_strict 9] h1 h3 st ev ph fl
  show ?thesis by (simp add: store_done_sel del: One_nat_def)
qed

text \<open>
  A caller who is no row of \<open>users\<close>: the flag is raised and the alert emitted, the audit
  row is not written, and the answer is the 500.
\<close>

lemma trigger_sos_unknown_caller:
  "user \<notin> set (map u_id (users s)) \<Longrightarrow>
   fst (trigger_sos E now tid user s) = Inl sos_failed
   \<and> audit_logs (snd (trigger_sos E now tid user s)) = audit_logs s
   \<and> outbox (snd (trigger_sos E now tid user s)) = outbox s @ [SocketEmit admin_room ''sos_alert'' tid]"
  by (simp add: trigger_sos_def Let_def)

lemma accept_update_stale:
  assumes "\<forall>t\<in>set (trips s). trip_id t = tid \<longrightarrow> status t \<noteq> pending"
  shows "accept_update now tid d s = (Inl stale_offer, s)"
proof -
  have "[t \<leftarrow> trips s. trip_id t = tid \<and> status t = pending] = []"
    using assms by (auto simp: filter_empty_conv)
  then show ?thesis by (simp add: accept_update_def Let_def)
qed

text \<open>
  C3, amended. An accept call on a trip whose status is not pending fails and leaves
  the whole store, the trip with it, unchanged. When the driver is approved and
  available the failure is the stale offer (409), which differs from the other
  failures of the handler; otherwise the call has already failed at the driver check
  (403).
\<close>

theorem accept_trip_not_pending:
  assumes "\<forall>t\<in>set (trips s). trip_id t = tid \<longrightarrow> status t \<noteq> pending"
  shows "accept_trip now tid d s =
           (Inl (if driverCheck s d then stale_offer else not_approved_or_available), s)
       \<and> stale_offer \<noteq> not_approved_or_available \<and> stale_offer \<noteq> accept_failed"
  by (simp add: accept_trip_def accept_update_stale [OF assms] stale_offer_def
      not_approved_or_available_def accept_failed_def)

lemma driverCheck_done: "driverCheck store_done 2" "\<not> driverCheck store_done 3"
  by (simp_all add: driverCheck_def store_done_sel baraka_profile_def chege_profile_def)

theorem accept_trip_not_pending_witness:
  "status finished_trip \<noteq> pending \<and> driverCheck store_done 2
   \<and> accept_trip 9 5 2 store_done = (Inl stale_offer, store_done)"
proof -
  have h: "\<forall>t\<in>set (trips store_done). trip_id t = 5 \<longrightarrow> status t \<noteq> pending"
    by (simp add: store_done_sel finished_trip_def)
  have st: "status finished_trip \<noteq> pending" by (simp add: finished_trip_def)
  from accept_trip_not_pending [OF h, of 9 2] driverCheck_done st show ?thesis by simp
qed

text \<open>
  C3, as stated, fails for a driver who is not approved: the call on a completed trip
  is answered with the driver check's 403, not with the stale offer.
\<close>

theorem accept_trip_not_pending_counterexample:
  "status finished_trip \<noteq> pending
   \<and> accept_trip 9 5 3 store_done = (Inl not_approved_or_available, store_done)
   \<and> not_approved_or_available \<noteq> stale_offer"
  by (simp add: accept_trip_def driverCheck_done finished_trip_def
      not_approved_or_available_def stale_offer_def)

section \<open>Properties of the location utilities\<close>

lemma nearby_rows_sound:
  assumes "(dp, u, km) \<in> set (nearby_rows E now x y metres s)"
  shows "dp \<in> set (driver_profiles s) \<and> u \<in> set (users s) \<and> user_id dp = u_id u
       \<and> is_available dp \<and> approval dp = approved \<and> u_status u = active
       \<and> ST_DWithin E \<lparr>st_x = x, st_y = y\<rparr> metres dp \<and> fresh now dp
       \<and> km = distance_km_of E \<lparr>st_x = x, st_y = y\<rparr> dp"
proof -
  from assms have "(dp, u, km) \<in> set (sort_key (\<lambda>(dp, u, distance_km). distance_km)
      [(dp, u, distance_km_of E \<lparr>st_x = x, st_y = y\<rparr> dp).
                      dp \<leftarrow> driver_profiles s, u \<leftarrow> users s, user_id dp = u_id u,
                      is_available dp = True \<and> approval dp = approved \<and> u_status u = active
                      \<and> ST_DWithin E \<lparr>st_x = x, st_y = y\<rparr> metres dp \<and> fresh now dp])"
    unfolding nearby_rows_def Let_def by (rule in_set_takeD)
  then show ?thesis by (auto split: if_splits)
qed

lemma nearby_rows_sorted:
  "sorted (map (\<lambda>(dp, u, distance_km). distance_km) (nearby_rows E now x y metres s))"
  unfolding nearby_rows_def Let_def take_map [symmetric]
  by (rule sorted_wrt_take) (rule sorted_sort_key)

lemma nearby_rows_length: "length (nearby_rows E now x y metres s) \<le> 20"
  by (simp add: nearby_rows_def Let_def)

text \<open>
  C6. For every point and radius, every driver that \<open>findNearbyDrivers\<close> returns has a
  profile that is available, approved, updated within the last ten minutes and within
  the radius; a driver whose profiles are all stale is never returned, however near;
  the result is in ascending order of distance from the query point and has at most 20
  entries.
\<close>

theorem findNearbyDrivers_candidates:
  "(\<forall>r \<in> set (findNearbyDrivers E now lat lon radiusKm s).
      \<exists>dp \<in> set (driver_profiles s).
        user_id dp = nd_id r \<and> is_available dp \<and> approval dp = approved
        \<and> (\<exists>t. last_location_update dp = Some t \<and> now - ten_minutes < t)
        \<and> (\<exists>l. current_location dp = Some l
              \<and> ST_Distance E l \<lparr>st_x = lon, st_y = lat\<rparr> \<le> radiusKm * 1000
              \<and> nd_distance_km r = ST_Distance E l \<lparr>st_x = lon, st_y = lat\<rparr> / 1000))
   \<and> ((\<forall>dp \<in> set (driver_profiles s). user_id dp = d \<longrightarrow> \<not> fresh now dp) \<longrightarrow>
        d \<notin> set (map nd_id (findNearbyDrivers E now lat lon radiusKm s)))
   \<and> sorted (map nd_distance_km (findNearbyDrivers E now lat lon radiusKm s))
   \<and> length (findNearbyDrivers E now lat lon radiusKm s) \<le> 20"
proof (intro conjI ballI impI)
  fix r
  assume "r \<in> set (findNearbyDrivers E now lat lon radiusKm s)"
  then obtain dp u km where
    row: "(dp, u, km) \<in> set (nearby_rows E now lon lat (radiusKm * 1000) s)"
    and r: "nd_id r = user_id dp" "nd_distance_km r = km"
    by (auto simp: findNearbyDrivers_def)
  note p = nearby_rows_sound [OF row]
  from p obtain t where t: "last_location_update dp = Some t" "now - ten_minutes < t"
    by (auto simp: fresh_def split: option.splits)
  from p obtain l where l: "current_location dp = Some l"
      "ST_Distance E l \<lparr>st_x = lon, st_y = lat\<rparr> \<le> radiusKm * 1000"
    by (auto simp: ST_DWithin_def split: option.splits)
  from p l have "km = ST_Distance E l \<lparr>st_x = lon, st_y = lat\<rparr> / 1000"
    by (simp add: distance_km_of_def)
  with p r t l show "\<exists>dp \<in> set (driver_profiles s).
        user_id dp = nd_id r \<and> is_available dp \<and> approval dp = approved
        \<and> (\<exists>t. last_location_update dp = Some t \<and> now - ten_minutes < t)
        \<and> (\<exists>l. current_location dp = Some l
              \<and> ST_Distance E l \<lparr>st_x = lon, st_y = lat\<rparr> \<le> radiusKm * 1000
              \<and> nd_distance_km r = ST_Distance E l \<lparr>st_x = lon, st_y = lat\<rparr> / 1000)"
    by (intro bexI [of _ dp]) simp_all
next
  assume stale: "\<forall>dp \<in> set (driver_profiles s). user_id dp = d \<longrightarrow> \<not> fresh now dp"
  show "d \<notin> set (map nd_id (findNearbyDrivers E now lat lon radiusKm s))"
  proof
    assume "d \<in> set (map nd_id (findNearbyDrivers E now lat lon radiusKm s))"
    then obtain dp u km where
      row: "(dp, u, km) \<in> set (nearby_rows E now lon lat (radiusKm * 1000) s)"
      and d: "d = user_id dp"
      by (auto simp: findNearbyDrivers_def)
    from nearby_rows_sound [OF row] d stale show False by blast
  qed
next
  have "map nd_distance_km (findNearbyDrivers E now lat lon radiusKm s) =
        map (\<lambda>(dp, u, distance_km). distance_km) (nearby_rows E now lon lat (radiusKm * 1000) s)"
    by (simp add: findNearbyDrivers_def comp_def split_def)
  then show "sorted (map nd_distance_km (findNearbyDrivers E now lat lon radiusKm s))"
    by (simp only: nearby_rows_sorted)
next
  show "length (findNearbyDrivers E now lat lon radiusKm s) \<le> 20"
    by (simp add: findNearbyDrivers_def nearby_rows_length)
qed

text \<open>
  A fleet in which the nearest driver is stale, the next is unavailable and one is not
  approved: the two others are returned, nearest first.
\<close>

lemma fleet_ids:
  "map nd_id (findNearbyDrivers env_strict 0 (- 130 / 100) (3682 / 100) 5 store_fleet) = [5, 2]"
  by (simp add: findNearbyDrivers_def nearby_rows_def store_fleet_def store0_def
      amina_def baraka_def chege_def dalila_def eshe_def faraji_def
      baraka_profile_def chege_profile_def dalila_profile_def eshe_profile_def faraji_profile_def
      ST_DWithin_def fresh_def distance_km_of_def env_strict_def flat_distance_def ten_minutes_def
      Let_def)


theorem findNearbyDrivers_candidates_witness:
  "dalila_profile \<in> set (driver_profiles store_fleet)
   \<and> distance_km_of env_strict \<lparr>st_x = 3682 / 100, st_y = - 130 / 100\<rparr> dalila_profile = 0
   \<and> \<not> fresh 0 dalila_profile
   \<and> map nd_id (findNearbyDrivers env_strict 0 (- 130 / 100) (3682 / 100) 5 store_fleet) = [5, 2]
   \<and> sorted (map nd_distance_km (findNearbyDrivers env_strict 0 (- 130 / 100) (3682 / 100) 5 store_fleet))
   \<and> length (findNearbyDrivers env_strict 0 (- 130 / 100) (3682 / 100) 5 store_fleet) \<le> 20"
proof -
  have a: "dalila_profile \<in> set (driver_profiles store_fleet)"
    by (simp add: store_fleet_def)
  have b: "distance_km_of env_strict \<lparr>st_x = 3682 / 100, st_y = - 130 / 100\<rparr> dalila_profile = 0"
    by (simp add: distance_km_of_def dalila_profile_def env_strict_def flat_distance_def)
  have c: "\<not> fresh 0 dalila_profile"
    by (simp add: fresh_def dalila_profile_def ten_minutes_def)
  from findNearbyDrivers_candidates [of env_strict 0 "- 130 / 100" "3682 / 100" 5 store_fleet 4]
    a b c fleet_ids
  show ?thesis by simp
qed

section \<open>Properties of the trip lifecycle\<close>

lemma store_pending_sel:
  "users store_pending = [amina, baraka, chege]"
  "driver_profiles store_pending = [baraka_profile, chege_profile]"
  "trips store_pending = [pending_trip]"
  by (simp_all add: store_pending_def store0_def)

lemma pending_trip_sel:
  "trip_id pending_trip = 7" "client_id pending_trip = 1" "driver_id pending_trip = None"
  "status pending_trip = pending"
  by (simp_all add: pending_trip_def finished_trip_def)

lemma valid_driver_arriving:
  "''driver_arriving'' \<in> set validStatuses" "status_of_string ''driver_arriving'' = Some driver_arriving"
  "''in_progress'' \<in> set validStatuses" "status_of_string ''in_progress'' = Some in_progress"
  by (simp_all add: validStatuses_def status_of_string_def)

lemma updateFields_driver_arriving:
  "updateFields E now driver_arriving = Some (\<lambda>t. t\<lparr>status := driver_arriving\<rparr>)"
  by (simp add: updateFields_def includes_cancelled_def)

lemma update_status_pending_arriving:
  "update_status E 9 7 ''driver_arriving'' 1 store_pending =
     (Inr (pending_trip\<lparr>status := driver_arriving, updated_at := 9\<rparr>),
      store_pending\<lparr>trips := [pending_trip\<lparr>status := driver_arriving, updated_at := 9\<rparr>],
                    audit_logs := [\<lparr>al_user_id = 1, action = ''trip_status_updated'',
                                     entity_type = ''trip'', entity_id = 7, al_created_at = 9\<rparr>]\<rparr>)"
  by (simp add: update_status_def valid_driver_arriving updateFields_driver_arriving
      store_pending_sel pending_trip_sel includes_cancelled_def Let_def)
     (simp add: store_pending_def store0_def)


lemma updateFields_in_progress_strict: "updateFields env_strict now in_progress = None"
  by (simp add: updateFields_def env_strict_def)

text \<open>
  C4 at a failing input. The client of a pending trip asks for \<open>driver_arriving\<close>, which
  the adjacency allows only after \<open>accepted\<close>: the handler applies it, whatever the
  record store. It asks for \<open>in_progress\<close>: the record store rejects the text bound
  as the start time and the call fails with the general 500, not with an
  invalid-transition condition.
\<close>

theorem update_status_skips_adjacency:
  "status pending_trip = pending \<and> client_id pending_trip = 1
   \<and> trips store_pending = [pending_trip]
   \<and> (\<forall>E. fst (update_status E 9 7 ''driver_arriving'' 1 store_pending) =
             Inr (pending_trip\<lparr>status := driver_arriving, updated_at := 9\<rparr>))
   \<and> (\<forall>E. trips (snd (update_status E 9 7 ''driver_arriving'' 1 store_pending)) =
             [pending_trip\<lparr>status := driver_arriving, updated_at := 9\<rparr>])
   \<and> update_status env_strict 9 7 ''in_progress'' 1 store_pending = (Inl status_failed, store_pending)"
proof -
  have b: "update_status env_strict 9 7 ''in_progress'' 1 store_pending = (Inl status_failed, store_pending)"
    by (simp add: update_status_def valid_driver_arriving updateFields_in_progress_strict
        store_pending_sel pending_trip_sel)
  show ?thesis
    by (simp add: update_status_pending_arriving b store_pending_sel pending_trip_sel
        del: One_nat_def)
qed

subsection \<open>The status and the driver reference\<close>

lemma request_trip_trips:
  "trips (snd (request_trip E now c p d s)) = trips s \<or>
   (\<exists>t. trips (snd (request_trip E now c p d s)) = trips s @ [t] \<and> status t = pending \<and> driver_id t = None)"
  by (simp add: request_trip_def request_checked_def Let_def split: option.splits prod.splits)

lemma accept_trip_trips:
  "trips (snd (accept_trip now tid d s)) = trips s \<or>
   trips (snd (accept_trip now tid d s)) =
     map (\<lambda>t. if trip_id t = tid \<and> status t = pending
               then t\<lparr>driver_id := Some d, status := accepted, accepted_at := Some now\<rparr> else t)
         (trips s)"
  by (simp add: accept_trip_def accept_update_def Let_def split: list.splits)

lemma valid_status_cases:
  assumes "x \<in> set validStatuses" and "status_of_string x = Some st"
  shows "st \<noteq> pending \<and> st \<noteq> accepted"
  using assms by (auto simp: validStatuses_def status_of_string_def)

lemma updateFields_fields:
  assumes "updateFields E now st = Some upd"
  shows "status (upd t) = st \<and> driver_id (upd t) = driver_id t"
  using assms by (auto simp: updateFields_def split: if_splits)

lemma update_status_trips:
  "trips (snd (update_status E now tid x user s)) = trips s \<or>
   (\<exists>st upd. x \<in> set validStatuses \<and> status_of_string x = Some st \<and> updateFields E now st = Some upd
      \<and> trips (snd (update_status E now tid x user s)) =
          map (\<lambda>t. if trip_id t = tid then (upd t)\<lparr>updated_at := now\<rparr> else t) (trips s))"
  by (simp add: update_status_def Let_def split: option.splits list.splits)

lemma report_location_trips: "trips (snd (report_location now tid d la lo sp h s)) = trips s"
  by (simp add: report_location_def Let_def split: list.splits)

lemma updateDriverLocation_trips: "trips (updateDriverLocation now d la lo s) = trips s"
  by (simp add: updateDriverLocation_def)

lemma bound_ok_request: "bound_ok s \<Longrightarrow> bound_ok (snd (request_trip E now c p d s))"
  using request_trip_trips [of E now c p d s]
  by (auto simp: bound_ok_def driver_bound_ok_def)

lemma bound_ok_accept: "bound_ok s \<Longrightarrow> bound_ok (snd (accept_trip now tid d s))"
  using accept_trip_trips [of now tid d s]
  unfolding bound_ok_def
  by (elim disjE) (simp_all only: ball_map_if, simp_all add: driver_bound_ok_def)

lemma bound_ok_update:
  assumes "bound_ok s"
  shows "bound_ok (snd (update_status E now tid x user s))"
proof -
  from update_status_trips [of E now tid x user s] show ?thesis
  proof (elim disjE exE conjE)
    assume "trips (snd (update_status E now tid x user s)) = trips s"
    with assms show ?thesis by (simp add: bound_ok_def)
  next
    fix st upd
    assume v: "x \<in> set validStatuses" "status_of_string x = Some st"
      and u: "updateFields E now st = Some upd"
      and t: "trips (snd (update_status E now tid x user s)) =
          map (\<lambda>t. if trip_id t = tid then (upd t)\<lparr>updated_at := now\<rparr> else t) (trips s)"
    from valid_status_cases [OF v] updateFields_fields [OF u]
    have "\<And>t. driver_bound_ok ((upd t)\<lparr>updated_at := now\<rparr>)"
      by (simp add: driver_bound_ok_def)
    with assms show ?thesis
      unfolding bound_ok_def t ball_map_if by simp
  qed
qed

lemma bound_ok_sos: "bound_ok s \<Longrightarrow> bound_ok (snd (trigger_sos E now tid user s))"
  unfolding bound_ok_def trigger_sos_trips ball_map_if by (simp add: driver_bound_ok_def)

lemma bound_ok_run_call: "bound_ok s \<Longrightarrow> bound_ok (run_call E now c s)"
  by (cases c)
     (simp_all add: bound_ok_request bound_ok_accept bound_ok_update bound_ok_sos,
      simp_all add: bound_ok_def report_location_trips updateDriverLocation_trips)

lemma bound_ok_run_calls: "bound_ok s \<Longrightarrow> bound_ok (run_calls E cs s)"
  by (induction cs arbitrary: s) (auto simp: bound_ok_run_call)


lemmas fixture_defs =
  store0_def env_strict_def flat_distance_def
  amina_def baraka_def chege_def baraka_profile_def chege_profile_def
  westlands_def kilimani_def defaultConfig_def

lemmas handler_defs =
  request_trip_def request_checked_def js_not_def opt_get_def active_pricing_def
  findNearbyDrivers_def nearby_rows_def ST_DWithin_def fresh_def distance_km_of_def
  ten_minutes_def accept_trip_def accept_update_def driverCheck_def
  update_status_def validStatuses_def status_of_string_def updateFields_def
  includes_cancelled_def

lemma skip_trips:
  "map status (trips (run_calls env_strict calls_skip store0)) = [driver_arriving]"
  "map driver_id (trips (run_calls env_strict calls_skip store0)) = [None]"
  by (simp_all add: calls_skip_def fixture_defs handler_defs Let_def)

lemma map_eq_singleton: "map f xs = [y] \<Longrightarrow> \<exists>x. xs = [x] \<and> f x = y"
  by (cases xs) auto

text \<open>
  C2 at a failing input. A client requests a trip and moves it, still pending, to
  \<open>driver_arriving\<close>: the status is one of the four that the claim ties to a driver,
  and the driver reference is null. The handler applies the update for want of the
  transition check (the defect of C4).
\<close>

theorem status_without_driver:
  "trips store0 = []
   \<and> map status (trips (run_calls env_strict calls_skip store0)) = [driver_arriving]
   \<and> map driver_id (trips (run_calls env_strict calls_skip store0)) = [None]
   \<and> \<not> list_all driver_iff_engaged (trips (run_calls env_strict calls_skip store0))"
proof -
  obtain t where t: "trips (run_calls env_strict calls_skip store0) = [t]"
      "status t = driver_arriving"
    using map_eq_singleton [OF skip_trips(1)] by blast
  with skip_trips(2) have "driver_id t = None" by simp
  with t have a: "\<not> list_all driver_iff_engaged (trips (run_calls env_strict calls_skip store0))"
    by (simp add: driver_iff_engaged_def)
  from a skip_trips show ?thesis by (simp add: store0_sel)
qed

text \<open>
  What the handlers do keep, in every state they reach: a trip whose status is pending
  has a null driver reference, and a trip whose status is accepted has a non-null one.
\<close>

lemma pending_unbound_accepted_bound:
  assumes "\<forall>t\<in>set (trips s0). driver_bound_ok t"
  shows "\<forall>t\<in>set (trips (run_calls E cs s0)). driver_bound_ok t"
  using bound_ok_run_calls [of s0 E cs] assms by (simp add: bound_ok_def)

section \<open>Properties of concurrent accept calls\<close>

lemma filter_key_distinct:
  "distinct (map f xs) \<Longrightarrow> x \<in> set xs \<Longrightarrow> [y \<leftarrow> xs. f y = f x] = [x]"
proof (induction xs)
  case Nil
  then show ?case by simp
next
  case (Cons a xs)
  show ?case
  proof (cases "a = x")
    case True
    with Cons.prems have "\<forall>y\<in>set xs. f y \<noteq> f x" by (auto simp: image_iff)
    then have "[y \<leftarrow> xs. f y = f x] = []" by (simp add: filter_empty_conv)
    with True show ?thesis by simp
  next
    case False
    with Cons.prems have "x \<in> set xs" "f a \<noteq> f x" by auto
    with Cons show ?thesis by simp
  qed
qed

lemma filter_hit:
  assumes "distinct (map trip_id (trips s))" and "t0 \<in> set (trips s)"
    and "trip_id t0 = tid" and "status t0 = pending"
  shows "[t \<leftarrow> trips s. trip_id t = tid \<and> status t = pending] = [t0]"
proof -
  have "[t \<leftarrow> trips s. trip_id t = trip_id t0] = [t0]"
    using assms(1,2) by (rule filter_key_distinct)
  then have "[t \<leftarrow> [t \<leftarrow> trips s. trip_id t = trip_id t0]. status t = pending] = [t0]"
    using assms(4) by simp
  then show ?thesis using assms(3) by (simp add: conj_commute)
qed

lemma driverCheck_cong:
  "driver_profiles s = driver_profiles s' \<Longrightarrow> driverCheck s d = driverCheck s' d"
  by (simp add: driverCheck_def)

lemma filter_marked:
  "[dp \<leftarrow> map (\<lambda>dp. if user_id dp = d then dp\<lparr>is_available := False\<rparr> else dp) ps. user_id dp = d'] =
   map (\<lambda>dp. if user_id dp = d then dp\<lparr>is_available := False\<rparr> else dp) [dp \<leftarrow> ps. user_id dp = d']"
  by (induction ps) simp_all

lemma driverCheck_marked:
  assumes "driver_profiles s' =
     map (\<lambda>dp. if user_id dp = d then dp\<lparr>is_available := False\<rparr> else dp) (driver_profiles s)"
  shows "driverCheck s' d' = (d' \<noteq> d \<and> driverCheck s d')"
proof (cases "[dp \<leftarrow> driver_profiles s. user_id dp = d']")
  case Nil
  then show ?thesis by (simp add: driverCheck_def assms filter_marked)
next
  case (Cons a as)
  then have "a \<in> set [dp \<leftarrow> driver_profiles s. user_id dp = d']" by simp
  then have "user_id a = d'" by simp
  with Cons show ?thesis by (simp add: driverCheck_def assms filter_marked)
qed


lemma accept_update_success:
  assumes "[t \<leftarrow> trips s. trip_id t = tid \<and> status t = pending] = t0 # ts"
    and "[u \<leftarrow> users s. u_id u = client_id t0] = u # us"
  shows "\<exists>r. fst (accept_update now tid d s) = Inr r"
    and "trips (snd (accept_update now tid d s)) =
           map (\<lambda>t. if trip_id t = tid \<and> status t = pending
                     then t\<lparr>driver_id := Some d, status := accepted, accepted_at := Some now\<rparr>
                     else t) (trips s)"
    and "driver_profiles (snd (accept_update now tid d s)) =
           map (\<lambda>dp. if user_id dp = d then dp\<lparr>is_available := False\<rparr> else dp) (driver_profiles s)"
    and "users (snd (accept_update now tid d s)) = users s"
  by (simp_all add: accept_update_def Let_def assms)

lemma same_key_same_row:
  "distinct (map f xs) \<Longrightarrow> x \<in> set xs \<Longrightarrow> y \<in> set xs \<Longrightarrow> f x = f y \<Longrightarrow> x = y"
  by (auto simp: distinct_map dest: inj_onD)

lemma accept_update_wins:
  assumes pk: "distinct (map trip_id (trips s))"
    and t0: "t0 \<in> set (trips s)" "trip_id t0 = tid" "status t0 = pending"
    and fk: "\<exists>u\<in>set (users s). u_id u = client_id t0"
  shows "(\<exists>r. fst (accept_update now tid d s) = Inr r)
       \<and> users (snd (accept_update now tid d s)) = users s
       \<and> bound_to tid d (snd (accept_update now tid d s))
       \<and> (\<forall>d'. driverCheck (snd (accept_update now tid d s)) d' = (d' \<noteq> d \<and> driverCheck s d'))"
proof -
  let ?s' = "snd (accept_update now tid d s)"
  let ?bound = "\<lambda>t. t\<lparr>driver_id := Some d, status := accepted, accepted_at := Some now\<rparr>"
  let ?hit = "\<lambda>t. trip_id t = tid \<and> status t = pending"
  have f: "[t \<leftarrow> trips s. trip_id t = tid \<and> status t = pending] = t0 # []"
    using filter_hit [OF pk t0] .
  from fk have "[u \<leftarrow> users s. u_id u = client_id t0] \<noteq> []"
    by (simp add: filter_empty_conv)
  then obtain u us where g: "[u \<leftarrow> users s. u_id u = client_id t0] = u # us"
    by (cases "[u \<leftarrow> users s. u_id u = client_id t0]") simp_all
  note r = accept_update_success [OF f g, of now d]
  have only: "\<And>x. x \<in> set (trips s) \<Longrightarrow> trip_id x = tid \<Longrightarrow> x = t0"
    using same_key_same_row [OF pk _ t0(1)] t0(2) by simp
  have b1: "\<forall>t\<in>set (trips ?s'). trip_id t = tid \<longrightarrow> status t = accepted \<and> driver_id t = Some d"
    unfolding r(2) ball_map_if using only t0(3) by simp blast
  have "(if ?hit t0 then ?bound t0 else t0) \<in> (\<lambda>t. if ?hit t then ?bound t else t) ` set (trips s)"
    using t0(1) by (rule imageI)
  then have "?bound t0 \<in> set (trips ?s')" using t0(2,3) by (simp add: r(2))
  moreover have "trip_id (?bound t0) = tid" using t0(2) by simp
  ultimately have b2: "\<exists>t\<in>set (trips ?s'). trip_id t = tid" by (rule bexI [rotated])
  have b3: "\<forall>dp\<in>set (driver_profiles ?s'). user_id dp = d \<longrightarrow> \<not> is_available dp"
    unfolding r(3) ball_map_if by simp
  have b: "bound_to tid d ?s'" unfolding bound_to_def using b1 b2 b3 by (intro conjI)
  have c: "\<forall>d'. driverCheck ?s' d' = (d' \<noteq> d \<and> driverCheck s d')"
    using driverCheck_marked [OF r(3)] by simp
  from r(1) r(4) b c show ?thesis by (intro conjI)
qed

lemma accept_update_after_win:
  assumes "bound_to tid dw s"
  shows "accept_update now tid d s = (Inl stale_offer, s)"
proof -
  from assms have "\<forall>t\<in>set (trips s). trip_id t = tid \<longrightarrow> status t \<noteq> pending"
    by (simp add: bound_to_def)
  then show ?thesis by (rule accept_update_stale)
qed


lemma early_to_loser: "early_phase s0 d p \<Longrightarrow> loser_phase s0 dw d p"
  by (cases p) (simp_all add: early_phase_def loser_phase_def)

lemma map_fst_update:
  "i < length cs \<Longrightarrow> fst (cs ! i) = d \<Longrightarrow> map fst (cs[i := (d, p)]) = map fst cs"
  by (simp add: map_update list_update_same_conv)

lemma step_started_nowinner:
  assumes "no_winner s0 (s, cs)" and "i < length cs" and "cs ! i = (d, Started)"
  shows "no_winner s0 (s, cs[i := (d, if driverCheck s d then Checked
                                       else Finished (Inl not_approved_or_available))])"
proof -
  let ?p = "if driverCheck s d then Checked else Finished (Inl not_approved_or_available)"
  from assms(1) have eq: "trips s = trips s0" "driver_profiles s = driver_profiles s0"
      "users s = users s0"
    and ph: "\<forall>j<length cs. early_phase s0 (fst (cs ! j)) (snd (cs ! j))"
    by (simp_all add: no_winner_def)
  from eq(2) have "driverCheck s d = driverCheck s0 d" by (rule driverCheck_cong)
  then have new: "early_phase s0 d ?p" by (simp add: early_phase_def)
  have "\<forall>j<length cs. early_phase s0 (fst (cs[i := (d, ?p)] ! j)) (snd (cs[i := (d, ?p)] ! j))"
  proof (intro allI impI)
    fix j assume j: "j < length cs"
    with ph have old: "early_phase s0 (fst (cs ! j)) (snd (cs ! j))" by simp
    show "early_phase s0 (fst (cs[i := (d, ?p)] ! j)) (snd (cs[i := (d, ?p)] ! j))"
    proof (cases "j = i")
      case True
      with new assms(2) show ?thesis by simp
    next
      case False
      with old show ?thesis by simp
    qed
  qed
  with eq show ?thesis by (simp add: no_winner_def)
qed

lemma step_started_winner:
  assumes "winner s0 tid w (s, cs)" and "i < length cs" and "cs ! i = (d, Started)"
  shows "winner s0 tid w (s, cs[i := (d, if driverCheck s d then Checked
                                          else Finished (Inl not_approved_or_available))])"
proof -
  let ?p = "if driverCheck s d then Checked else Finished (Inl not_approved_or_available)"
  from assms(1,3) have ne: "i \<noteq> w" by (auto simp: winner_def)
  from assms(1) have "driverCheck s d = (d \<noteq> fst (cs ! w) \<and> driverCheck s0 d)"
    by (simp add: winner_def)
  then have new: "loser_phase s0 (fst (cs ! w)) d ?p"
    by (auto simp: loser_phase_def)
  have "\<forall>j<length cs. j \<noteq> w \<longrightarrow>
          loser_phase s0 (fst (cs[i := (d, ?p)] ! w)) (fst (cs[i := (d, ?p)] ! j)) (snd (cs[i := (d, ?p)] ! j))"
  proof (intro allI impI)
    fix j assume j: "j < length cs" "j \<noteq> w"
    from assms(1) j have old: "loser_phase s0 (fst (cs ! w)) (fst (cs ! j)) (snd (cs ! j))"
      by (simp add: winner_def)
    show "loser_phase s0 (fst (cs[i := (d, ?p)] ! w)) (fst (cs[i := (d, ?p)] ! j)) (snd (cs[i := (d, ?p)] ! j))"
    proof (cases "j = i")
      case True
      with new ne assms(2) show ?thesis by simp
    next
      case False
      with old ne show ?thesis by simp
    qed
  qed
  with assms(1) ne show ?thesis
    by (simp add: winner_def)
qed

lemma step_checked_nowinner:
  assumes pk: "distinct (map trip_id (trips s0))"
    and t0: "t0 \<in> set (trips s0)" "trip_id t0 = tid" "status t0 = pending"
    and fk: "\<exists>u\<in>set (users s0). u_id u = client_id t0"
    and nw: "no_winner s0 (s, cs)" and i: "i < length cs" "cs ! i = (d, Checked)"
    and up: "accept_update now tid d s = (r, s')"
  shows "winner s0 tid i (s', cs[i := (d, Finished r)])"
proof -
  from nw have eq: "trips s = trips s0" "driver_profiles s = driver_profiles s0" "users s = users s0"
    and ph: "\<forall>j<length cs. early_phase s0 (fst (cs ! j)) (snd (cs ! j))"
    by (simp_all add: no_winner_def)
  from pk t0 fk eq have
    "(\<exists>r. fst (accept_update now tid d s) = Inr r)
       \<and> users (snd (accept_update now tid d s)) = users s
       \<and> bound_to tid d (snd (accept_update now tid d s))
       \<and> (\<forall>d'. driverCheck (snd (accept_update now tid d s)) d' = (d' \<noteq> d \<and> driverCheck s d'))"
    by (intro accept_update_wins [of s t0 tid]) simp_all
  then have "(\<exists>r'. r = Inr r')" and b: "bound_to tid d s'"
    and dc: "\<forall>d'. driverCheck s' d' = (d' \<noteq> d \<and> driverCheck s d')"
    by (simp_all add: up)
  then obtain r' where r: "r = Inr r'" by (elim exE)
  from dc eq(2) have dc0: "\<forall>d'. driverCheck s' d' = (d' \<noteq> d \<and> driverCheck s0 d')"
    by (simp add: driverCheck_cong [of s s0])
  from ph have "\<forall>j<length cs. j \<noteq> i \<longrightarrow> loser_phase s0 d (fst (cs ! j)) (snd (cs ! j))"
    by (simp add: early_to_loser)
  with i r b dc0 show ?thesis
    by (simp add: winner_def nth_list_update)
qed

lemma step_checked_winner:
  assumes "winner s0 tid w (s, cs)" and "i < length cs" and "cs ! i = (d, Checked)"
    and "accept_update now tid d s = (r, s')"
  shows "winner s0 tid w (s', cs[i := (d, Finished r)])"
proof -
  let ?p = "Finished r"
  from assms(1,3) have ne: "i \<noteq> w" by (auto simp: winner_def)
  from assms(1) have "bound_to tid (fst (cs ! w)) s" by (simp add: winner_def)
  from accept_update_after_win [OF this, of now d] assms(4)
  have r: "r = Inl stale_offer" "s' = s" by simp_all
  then have new: "loser_phase s0 (fst (cs ! w)) d ?p"
    by (simp add: loser_phase_def)
  have "\<forall>j<length cs. j \<noteq> w \<longrightarrow>
          loser_phase s0 (fst (cs[i := (d, ?p)] ! w)) (fst (cs[i := (d, ?p)] ! j)) (snd (cs[i := (d, ?p)] ! j))"
  proof (intro allI impI)
    fix j assume j: "j < length cs" "j \<noteq> w"
    from assms(1) j have old: "loser_phase s0 (fst (cs ! w)) (fst (cs ! j)) (snd (cs ! j))"
      by (simp add: winner_def)
    show "loser_phase s0 (fst (cs[i := (d, ?p)] ! w)) (fst (cs[i := (d, ?p)] ! j)) (snd (cs[i := (d, ?p)] ! j))"
    proof (cases "j = i")
      case True
      with new ne assms(2) show ?thesis by simp
    next
      case False
      with old ne show ?thesis by simp
    qed
  qed
  with assms(1) ne r(2) show ?thesis
    by (simp add: winner_def)
qed

lemma accept_inv_step:
  assumes pk: "distinct (map trip_id (trips s0))"
    and t0: "t0 \<in> set (trips s0)" "trip_id t0 = tid" "status t0 = pending"
    and fk: "\<exists>u\<in>set (users s0). u_id u = client_id t0"
    and inv: "accept_inv s0 tid ds c"
  shows "accept_inv s0 tid ds (accept_step tid x c)"
proof -
  obtain s cs where c: "c = (s, cs)" by (cases c)
  obtain i now where x: "x = (i, now)" by (cases x)
  from inv c have ds: "map fst cs = ds"
    and w: "no_winner s0 (s, cs) \<or> (\<exists>w. winner s0 tid w (s, cs))"
    by (simp_all add: accept_inv_def)
  show ?thesis
  proof (cases "i < length cs")
    case False
    with inv show ?thesis by (simp add: c x)
  next
    case True
    obtain d p where ci: "cs ! i = (d, p)" by (cases "cs ! i")
    then have fi: "fst (cs ! i) = d" by simp
    show ?thesis
    proof (cases p)
      case Started
      let ?cs' = "cs[i := (d, if driverCheck s d then Checked
                              else Finished (Inl not_approved_or_available))]"
      have st: "accept_step tid x c = (s, ?cs')"
        using True ci Started by (simp add: c x)
      from w have "no_winner s0 (s, ?cs') \<or> (\<exists>w. winner s0 tid w (s, ?cs'))"
      proof (elim disjE exE)
        assume "no_winner s0 (s, cs)"
        from step_started_nowinner [OF this True] ci Started
        show ?thesis by simp
      next
        fix w assume "winner s0 tid w (s, cs)"
        from step_started_winner [OF this True] ci Started
        have "winner s0 tid w (s, ?cs')" by simp
        then show ?thesis by (intro disjI2 exI)
      qed
      then show ?thesis
        unfolding st accept_inv_def using ds map_fst_update [OF True fi] by simp
    next
      case Checked
      obtain r s' where up: "accept_update now tid d s = (r, s')"
        by (cases "accept_update now tid d s")
      have st: "accept_step tid x c = (s', cs[i := (d, Finished r)])"
        using True ci Checked up by (simp add: c x)
      from w have "\<exists>w. winner s0 tid w (s', cs[i := (d, Finished r)])"
      proof (elim disjE exE)
        assume nw: "no_winner s0 (s, cs)"
        from ci Checked have "cs ! i = (d, Checked)" by simp
        from step_checked_nowinner [OF pk t0 fk nw True this up]
        show ?thesis by (rule exI)
      next
        fix w assume wn: "winner s0 tid w (s, cs)"
        from ci Checked have "cs ! i = (d, Checked)" by simp
        from step_checked_winner [OF wn True this up]
        show ?thesis by (rule exI)
      qed
      then show ?thesis
        unfolding st accept_inv_def using ds map_fst_update [OF True fi] by simp
    next
      case (Finished r)
      then have "accept_step tid x c = c" using True ci by (simp add: c x)
      with inv show ?thesis by simp
    qed
  qed
qed

lemma accept_inv_run:
  assumes pk: "distinct (map trip_id (trips s0))"
    and t0: "t0 \<in> set (trips s0)" "trip_id t0 = tid" "status t0 = pending"
    and fk: "\<exists>u\<in>set (users s0). u_id u = client_id t0"
  shows "accept_inv s0 tid ds c \<Longrightarrow> accept_inv s0 tid ds (accept_run tid sched c)"
proof (induction sched arbitrary: c)
  case Nil
  then show ?case by simp
next
  case (Cons x xs)
  from accept_inv_step [OF pk t0 fk Cons.prems] have "accept_inv s0 tid ds (accept_step tid x c)" .
  then show ?case using Cons.IH by simp
qed

lemma accept_inv_start: "accept_inv s0 tid ds (s0, start_calls ds)"
  by (simp add: accept_inv_def no_winner_def start_calls_def early_phase_def comp_def)


lemma filter_upt_eq: "w < n \<Longrightarrow> [j \<leftarrow> [0..<n]. j = w] = [w]"
proof (induction n)
  case 0
  then show ?case by simp
next
  case (Suc n)
  show ?case
  proof (cases "w = n")
    case True
    have "[j \<leftarrow> [0..<n]. j = n] = []" by (simp add: filter_empty_conv)
    with True show ?thesis by simp
  next
    case False
    with Suc show ?thesis by simp
  qed
qed

lemma winners_none: "\<forall>j<length cs. \<not> succeeded (cs ! j) \<Longrightarrow> winners cs = []"
  by (simp add: winners_def filter_empty_conv)

lemma winners_one:
  assumes "w < length cs" and "\<forall>j<length cs. succeeded (cs ! j) = (j = w)"
  shows "winners cs = [w]"
proof -
  have "[j \<leftarrow> [0..<length cs]. succeeded (cs ! j)] = [j \<leftarrow> [0..<length cs]. j = w]"
    using assms(2) by (intro filter_cong) simp_all
  with filter_upt_eq [OF assms(1)] show ?thesis by (simp add: winners_def)
qed

lemma early_not_succeeded: "early_phase s0 d (snd c) \<Longrightarrow> \<not> succeeded c"
  by (cases "snd c") (auto simp: early_phase_def succeeded_def)

lemma loser_not_succeeded: "loser_phase s0 dw d (snd c) \<Longrightarrow> \<not> succeeded c"
  by (cases "snd c") (auto simp: loser_phase_def succeeded_def)

lemma no_winner_winners: "no_winner s0 (s, cs) \<Longrightarrow> winners cs = []"
  by (rule winners_none) (auto simp: no_winner_def dest: early_not_succeeded)

lemma winner_winners:
  assumes "winner s0 tid w (s, cs)"
  shows "winners cs = [w]"
proof (rule winners_one)
  from assms show "w < length cs" by (simp add: winner_def)
  show "\<forall>j<length cs. succeeded (cs ! j) = (j = w)"
  proof (intro allI impI)
    fix j assume j: "j < length cs"
    show "succeeded (cs ! j) = (j = w)"
    proof (cases "j = w")
      case True
      with assms show ?thesis by (auto simp: winner_def succeeded_def)
    next
      case False
      with assms j have "loser_phase s0 (fst (cs ! w)) (fst (cs ! j)) (snd (cs ! j))"
        by (simp add: winner_def)
      with False show ?thesis by (simp add: loser_not_succeeded)
    qed
  qed
qed

lemma loser_finished:
  assumes "loser_phase s0 dw d p" and "is_finished p"
  shows "(p = Finished (Inl stale_offer) \<or> p = Finished (Inl not_approved_or_available))
       \<and> (driverCheck s0 d \<and> d \<noteq> dw \<longrightarrow> p = Finished (Inl stale_offer))"
  using assms by (cases p) (auto simp: loser_phase_def is_finished_def)

lemma early_finished:
  assumes "early_phase s0 d p" and "is_finished p"
  shows "\<not> driverCheck s0 d"
  using assms by (cases p) (auto simp: early_phase_def is_finished_def)


text \<open>
  C1, amended. Accept calls on one pending trip, interleaved in any order. At every
  moment at most one call has succeeded. When all calls have finished and at least one
  caller was approved and available, exactly one call has succeeded: the trip is
  accepted and bound to that caller's driver, whose profile is unavailable. Every other
  call has failed, with the stale offer (409) or with the driver check's 403; a caller
  who was approved and available, and is not the winner's driver, gets the stale offer.
\<close>

theorem single_winner:
  assumes pk: "distinct (map trip_id (trips s0))"
    and t0: "t0 \<in> set (trips s0)" "trip_id t0 = tid" "status t0 = pending"
    and fk: "\<exists>u\<in>set (users s0). u_id u = client_id t0"
    and run: "accept_run tid sched (s0, start_calls ds) = (s, cs)"
  shows "length (winners cs) \<le> 1 \<and> map fst cs = ds
       \<and> (all_finished cs \<and> (\<exists>d\<in>set ds. driverCheck s0 d) \<longrightarrow>
            (\<exists>w<length ds. winners cs = [w]
               \<and> bound_to tid (ds ! w) s
               \<and> (\<forall>j<length ds. j \<noteq> w \<longrightarrow>
                     snd (cs ! j) = Finished (Inl stale_offer) \<or>
                     snd (cs ! j) = Finished (Inl not_approved_or_available))
               \<and> (\<forall>j<length ds. j \<noteq> w \<and> driverCheck s0 (ds ! j) \<and> ds ! j \<noteq> ds ! w \<longrightarrow>
                     snd (cs ! j) = Finished (Inl stale_offer))))"
proof -
  from accept_inv_run [OF pk t0 fk accept_inv_start, of ds sched] run
  have inv: "accept_inv s0 tid ds (s, cs)" by simp
  then have ds: "map fst cs = ds"
    and w: "no_winner s0 (s, cs) \<or> (\<exists>w. winner s0 tid w (s, cs))"
    by (simp_all add: accept_inv_def)
  from ds have len: "length cs = length ds" by (metis length_map)
  from ds have nth: "\<And>j. j < length ds \<Longrightarrow> fst (cs ! j) = ds ! j"
    using len by (metis nth_map)
  from w have a: "length (winners cs) \<le> 1"
    by (auto simp: no_winner_winners winner_winners)
  have b: "\<exists>w<length ds. winners cs = [w]
               \<and> bound_to tid (ds ! w) s
               \<and> (\<forall>j<length ds. j \<noteq> w \<longrightarrow>
                     snd (cs ! j) = Finished (Inl stale_offer) \<or>
                     snd (cs ! j) = Finished (Inl not_approved_or_available))
               \<and> (\<forall>j<length ds. j \<noteq> w \<and> driverCheck s0 (ds ! j) \<and> ds ! j \<noteq> ds ! w \<longrightarrow>
                     snd (cs ! j) = Finished (Inl stale_offer))"
    if fin: "all_finished cs" and el: "\<exists>d\<in>set ds. driverCheck s0 d"
  proof -
    from fin have f: "\<And>j. j < length ds \<Longrightarrow> is_finished (snd (cs ! j))"
      by (simp add: all_finished_def list_all_length len)
    from el obtain k where k: "k < length ds" "driverCheck s0 (ds ! k)"
      by (auto simp: in_set_conv_nth)
    have "\<not> no_winner s0 (s, cs)"
    proof
      assume "no_winner s0 (s, cs)"
      with k len have "early_phase s0 (fst (cs ! k)) (snd (cs ! k))"
        by (simp add: no_winner_def)
      from early_finished [OF this f [OF k(1)]] k nth show False by simp
    qed
    with w obtain w where wn: "winner s0 tid w (s, cs)" by blast
    then have wl: "w < length ds" and bt: "bound_to tid (fst (cs ! w)) s"
      and lo: "\<forall>j<length cs. j \<noteq> w \<longrightarrow> loser_phase s0 (fst (cs ! w)) (fst (cs ! j)) (snd (cs ! j))"
      by (simp_all add: winner_def len)
    have lf: "(snd (cs ! j) = Finished (Inl stale_offer) \<or>
               snd (cs ! j) = Finished (Inl not_approved_or_available))
            \<and> (driverCheck s0 (ds ! j) \<and> ds ! j \<noteq> ds ! w \<longrightarrow> snd (cs ! j) = Finished (Inl stale_offer))"
      if j: "j < length ds" "j \<noteq> w" for j
    proof -
      from lo j len have "loser_phase s0 (fst (cs ! w)) (fst (cs ! j)) (snd (cs ! j))" by simp
      from loser_finished [OF this f [OF j(1)]] nth [OF j(1)] nth [OF wl] show ?thesis by simp
    qed
    from winner_winners [OF wn] have "winners cs = [w]" .
    moreover from bt nth [OF wl] have "bound_to tid (ds ! w) s" by simp
    ultimately show ?thesis using wl lf by blast
  qed
  from a ds b show ?thesis by blast
qed


lemmas race_defs =
  store_race_def store_fleet_def store_pending_def store0_def pending_trip_def finished_trip_def
  amina_def baraka_def chege_def dalila_def eshe_def faraji_def
  baraka_profile_def chege_profile_def dalila_profile_def eshe_profile_def faraji_profile_def
  start_calls_def driverCheck_def accept_update_def Let_def

lemma race_result:
  "map snd (snd (accept_run 7 race_schedule (store_race, start_calls [2, 5, 3]))) =
     [Finished (Inl stale_offer),
      Finished (Inr \<lparr>ar_id = 7, ar_client_name = ''Amina'', ar_client_phone = ''+254711000001'',
                     ar_pickup_address = ''Westlands, Nairobi'',
                     ar_dropoff_address = ''Kilimani, Nairobi'', ar_estimated_price = 400\<rparr>),
      Finished (Inl not_approved_or_available)]"
  "map status (trips (fst (accept_run 7 race_schedule (store_race, start_calls [2, 5, 3])))) = [accepted]"
  "map driver_id (trips (fst (accept_run 7 race_schedule (store_race, start_calls [2, 5, 3])))) = [Some 5]"
  "map is_available (driver_profiles (fst (accept_run 7 race_schedule (store_race, start_calls [2, 5, 3]))))
     = [True, True, True, False, False]"
  by (simp_all add: race_schedule_def race_defs)

lemma short_result:
  "map snd (snd (accept_run 7 short_schedule (store_pending, start_calls [2, 3]))) =
     [Finished (Inr \<lparr>ar_id = 7, ar_client_name = ''Amina'', ar_client_phone = ''+254711000001'',
                     ar_pickup_address = ''Westlands, Nairobi'',
                     ar_dropoff_address = ''Kilimani, Nairobi'', ar_estimated_price = 400\<rparr>),
      Finished (Inl not_approved_or_available)]"
  by (simp add: short_schedule_def race_defs)


lemma all_finished_phases: "all_finished cs = list_all is_finished (map snd cs)"
  by (simp add: all_finished_def list_all_iff)

lemma winners_phases:
  "winners cs =
     [i \<leftarrow> [0..<length (map snd cs)].
        (case map snd cs ! i of Finished (Inr r) \<Rightarrow> True | _ \<Rightarrow> False)]"
  unfolding winners_def by (rule filter_cong) (simp_all add: succeeded_def)

lemma phase_nth: "i < length cs \<Longrightarrow> snd (cs ! i) = map snd cs ! i"
  by simp

lemma upt_3: "[0..<3] = [0, 1, 2]" "[0..<2] = [0, 1]"
  by (simp_all add: upt_rec)

text \<open>
  Three calls on one pending trip. Two approved, available drivers pass the check, the
  second transacts first and wins, the first gets the stale offer; a driver who is not
  approved gets the 403.
\<close>

theorem single_winner_witness:
  "status pending_trip = pending
   \<and> all_finished (snd (accept_run 7 race_schedule (store_race, start_calls [2, 5, 3])))
   \<and> winners (snd (accept_run 7 race_schedule (store_race, start_calls [2, 5, 3]))) = [1]
   \<and> snd (snd (accept_run 7 race_schedule (store_race, start_calls [2, 5, 3])) ! 0)
        = Finished (Inl stale_offer)
   \<and> snd (snd (accept_run 7 race_schedule (store_race, start_calls [2, 5, 3])) ! 2)
        = Finished (Inl not_approved_or_available)
   \<and> bound_to 7 5 (fst (accept_run 7 race_schedule (store_race, start_calls [2, 5, 3])))"
proof -
  let ?c = "accept_run 7 race_schedule (store_race, start_calls [2, 5, 3])"
  have pk: "distinct (map trip_id (trips store_race))" by (simp add: store_race_def)
  have t0: "pending_trip \<in> set (trips store_race)" "trip_id pending_trip = 7"
      "status pending_trip = pending"
    by (simp_all add: store_race_def pending_trip_sel)
  have fk: "\<exists>u\<in>set (users store_race). u_id u = client_id pending_trip"
    by (simp add: store_race_def store_fleet_def pending_trip_sel amina_def)
  have run: "accept_run 7 race_schedule (store_race, start_calls [2, 5, 3]) = (fst ?c, snd ?c)"
    by simp
  have len: "length (snd ?c) = 3" using arg_cong [OF race_result(1), of length] by simp
  have fin: "all_finished (snd ?c)"
    by (simp add: all_finished_phases race_result(1) is_finished_def)
  have win: "winners (snd ?c) = [1]"
    by (simp add: winners_phases race_result(1) upt_3)
  have p0: "snd (snd ?c ! 0) = Finished (Inl stale_offer)"
    using len by (simp add: phase_nth race_result(1))
  have p2: "snd (snd ?c ! 2) = Finished (Inl not_approved_or_available)"
    using len by (simp add: phase_nth race_result(1))
  have el: "\<exists>d\<in>set [2, 5, 3]. driverCheck store_race d"
    by (simp add: driverCheck_def store_race_def store_fleet_def baraka_profile_def)
  from single_winner [OF pk t0 fk run] fin el
  obtain w where "winners (snd ?c) = [w]" "bound_to 7 ([2, 5, 3] ! w) (fst ?c)"
    by blast
  with win have "bound_to 7 5 (fst ?c)" by simp
  with t0(3) fin win p0 p2 show ?thesis by (intro conjI)
qed

text \<open>
  C1, as stated, fails when a caller is not an approved, available driver: of two calls
  on a pending trip, the approved driver's succeeds and the other caller, who is not
  approved, observes the driver check's 403, not the stale offer.
\<close>

theorem single_winner_counterexample:
  "status pending_trip = pending \<and> trips store_pending = [pending_trip]
   \<and> all_finished (snd (accept_run 7 short_schedule (store_pending, start_calls [2, 3])))
   \<and> winners (snd (accept_run 7 short_schedule (store_pending, start_calls [2, 3]))) = [0]
   \<and> snd (snd (accept_run 7 short_schedule (store_pending, start_calls [2, 3])) ! 1)
        = Finished (Inl not_approved_or_available)
   \<and> Finished (Inl not_approved_or_available) \<noteq> Finished (Inl stale_offer)"
proof -
  let ?c = "accept_run 7 short_schedule (store_pending, start_calls [2, 3])"
  have len: "length (snd ?c) = 2" using arg_cong [OF short_result, of length] by simp
  have fin: "all_finished (snd ?c)"
    by (simp add: all_finished_phases short_result is_finished_def)
  have win: "winners (snd ?c) = [0]"
    by (simp add: winners_phases short_result upt_3)
  have p1: "snd (snd ?c ! 1) = Finished (Inl not_approved_or_available)"
    using len by (simp add: phase_nth short_result)
  have ne: "Finished (Inl not_approved_or_available) \<noteq> Finished (Inl stale_offer)"
    by (simp add: not_approved_or_available_def stale_offer_def)
  from fin win p1 ne show ?thesis by (simp add: pending_trip_sel store_pending_sel)
qed

subsection \<open>Every call finishes\<close>

text \<open>
  A call finishes with its second move at the latest: a schedule that moves every call
  twice leaves every call finished, so the runs in which all calls have finished exist
  for every store and every list of callers.
\<close>

lemma accept_step_rank:
  assumes "accept_step tid (i, now) (s, cs) = (s', cs')"
  shows "length cs' = length cs
       \<and> (\<forall>j<length cs. rank (snd (cs' ! j)) \<ge> min 2 (rank (snd (cs ! j)) + (if j = i then 1 else 0)))"
proof (cases "i < length cs")
  case False
  with assms show ?thesis by auto
next
  case True
  obtain d p where ci: "cs ! i = (d, p)" by (cases "cs ! i")
  show ?thesis
  proof (cases p)
    case Started
    with assms True ci have "cs' = cs[i := (d, if driverCheck s d then Checked
                              else Finished (Inl not_approved_or_available))]"
      by auto
    with True ci Started show ?thesis by (simp add: nth_list_update rank_def)
  next
    case Checked
    obtain r s2 where up: "accept_update now tid d s = (r, s2)"
      by (cases "accept_update now tid d s")
    with assms True ci Checked have "cs' = cs[i := (d, Finished r)]" by simp
    with True ci Checked show ?thesis by (simp add: nth_list_update rank_def)
  next
    case (Finished r)
    with assms True ci have "cs' = cs" by simp
    with True ci Finished show ?thesis by (simp add: rank_def)
  qed
qed

lemma accept_run_rank:
  "accept_run tid sched (s, cs) = (s', cs') \<Longrightarrow>
     length cs' = length cs
     \<and> (\<forall>j<length cs. rank (snd (cs' ! j)) \<ge> min 2 (rank (snd (cs ! j)) + count_list (map fst sched) j))"
proof (induction sched arbitrary: s cs)
  case Nil
  then show ?case by simp
next
  case (Cons x xs)
  obtain i now where x: "x = (i, now)" by (cases x)
  obtain s1 cs1 where st: "accept_step tid (i, now) (s, cs) = (s1, cs1)"
    by (cases "accept_step tid (i, now) (s, cs)")
  note a = accept_step_rank [OF st]
  from Cons.prems x st have "accept_run tid xs (s1, cs1) = (s', cs')" by simp
  note b = Cons.IH [OF this]
  show ?case
  proof (intro conjI allI impI)
    from a b show "length cs' = length cs" by simp
  next
    fix j assume j: "j < length cs"
    with a have a1: "rank (snd (cs1 ! j)) \<ge> min 2 (rank (snd (cs ! j)) + (if j = i then 1 else 0))"
      by blast
    from j a b have b1: "rank (snd (cs' ! j)) \<ge> min 2 (rank (snd (cs1 ! j)) + count_list (map fst xs) j)"
      by simp
    from a1 b1 show "rank (snd (cs' ! j)) \<ge> min 2 (rank (snd (cs ! j)) + count_list (map fst (x # xs)) j)"
      by (auto simp: x)
  qed
qed

lemma count_upt: "j < n \<Longrightarrow> count_list [0..<n] j = 1"
  by (induction n) (auto simp: less_Suc_eq)

lemma rank_finished: "2 \<le> rank p \<Longrightarrow> is_finished p"
  by (cases p) (simp_all add: rank_def is_finished_def)

lemma round_robin_finishes:
  "all_finished (snd (accept_run tid (round_robin (length ds) now) (s0, start_calls ds)))"
proof -
  obtain s cs where r: "accept_run tid (round_robin (length ds) now) (s0, start_calls ds) = (s, cs)"
    by (cases "accept_run tid (round_robin (length ds) now) (s0, start_calls ds)")
  have m: "map fst (round_robin (length ds) now) = [0..<length ds] @ [0..<length ds]"
    by (simp add: round_robin_def comp_def)
  from accept_run_rank [OF r] have len: "length cs = length ds"
    and rk: "\<forall>j<length ds. rank (snd (cs ! j)) \<ge>
               min 2 (rank (snd (start_calls ds ! j)) + count_list ([0..<length ds] @ [0..<length ds]) j)"
    by (simp_all add: m start_calls_def)
  have "\<forall>j<length cs. is_finished (snd (cs ! j))"
  proof (intro allI impI)
    fix j assume "j < length cs"
    with len have j: "j < length ds" by simp
    with rk have "rank (snd (cs ! j)) \<ge> 2" by (auto simp: count_upt start_calls_def rank_def)
    then show "is_finished (snd (cs ! j))" by (rule rank_finished)
  qed
  then show ?thesis by (simp add: r all_finished_def list_all_length)
qed

end
